theory Spec2Isabelle
  imports Complex_Main "HOL-Library.Char_ord" "HOL-Library.List_Lexorder" "HOL-Library.Multiset"
begin

section \<open>JavaScript values used by the converter\<close>

text \<open>
  Ids are non-negative integers. \<open>toString\<close> is \<open>Number.prototype.toString\<close> on such a
  number: its decimal digits, most significant first, with no leading zero.
\<close>

definition digit_char :: "nat \<Rightarrow> char" where
  "digit_char d = ''0123456789'' ! d"

function toString :: "nat \<Rightarrow> string" where
  "toString n = (if n < 10 then [digit_char n] else toString (n div 10) @ [digit_char (n mod 10)])"
  by pat_completeness auto
termination
  by (relation "measure (\<lambda>n. n)") auto

declare toString.simps [simp del]

text \<open>
  A value that is a number or a string: what \<open>maxID\<close>, \<open>templateMinID\<close> and \<open>curID\<close> of
  \<open>main\<close> can hold.
\<close>

datatype jsval = Num nat | Str string

text \<open>
  \<open>a + b\<close> of JavaScript on such values: addition of two numbers, concatenation as soon
  as one operand is a string.
\<close>

fun js_add :: "jsval \<Rightarrow> jsval \<Rightarrow> jsval" where
  "js_add (Num a) (Num b) = Num (a + b)"
| "js_add (Num a) (Str t) = Str (toString a @ t)"
| "js_add (Str s) (Num b) = Str (s @ toString b)"
| "js_add (Str s) (Str t) = Str (s @ t)"

text \<open>
  \<open>idNum <= maxID\<close> with a number on the left: a string on the right is converted by
  \<open>Number\<close>, and a comparison with NaN is false. The conversion \<open>Number\<close> of the
  language is a parameter of the model: \<open>None\<close> stands for NaN.
\<close>

fun js_le :: "(string \<Rightarrow> nat option) \<Rightarrow> nat \<Rightarrow> jsval \<Rightarrow> bool" where
  "js_le Number n (Num m) = (n \<le> m)"
| "js_le Number n (Str s) = (case Number s of None \<Rightarrow> False | Some m \<Rightarrow> n \<le> m)"

text \<open>
  The instance of the conversion used to run the examples: the value of a key that is
  written with decimal digits only, \<open>None\<close> for any other key. It agrees with \<open>Number\<close> on the
  keys of the examples; \<open>Number\<close> also reads the empty string, white space, signs,
  fractions, exponents and hexadecimal, octal and binary literals, which this leaves out.
\<close>

definition digit_val :: "char \<Rightarrow> nat option" where
  "digit_val c = (if c \<in> set ''0123456789'' then Some (of_char c - 48) else None)"

fun decimal_from :: "nat \<Rightarrow> string \<Rightarrow> nat option" where
  "decimal_from acc [] = Some acc"
| "decimal_from acc (c # cs) =
     (case digit_val c of None \<Rightarrow> None | Some d \<Rightarrow> decimal_from (10 * acc + d) cs)"

definition decimal :: "string \<Rightarrow> nat option" where
  "decimal s = (if s = [] then None else decimal_from 0 s)"

section \<open>The template project\<close>

datatype error = NodeNotPresentInParent | TypeError

text \<open>
  The \<open>link\<close> property of a manifest entry: missing or not an object, \<open>null\<close> (whose
  \<open>typeof\<close> is \<open>'object'\<close> too), or an object with a name and a file.
\<close>

datatype jslink = LinkAbsent | LinkNull | LinkObj string string

record tmpl_obj =
  tlink :: jslink
  other :: string

text \<open>
  The parsed template document. Each category is absent or the list
  \<open>Object.entries\<close> gives for it, in its order.
\<close>

record template_json =
  t_objects :: "(string \<times> tmpl_obj) list option"
  t_meshes :: "(string \<times> tmpl_obj) list option"
  t_textures :: "(string \<times> tmpl_obj) list option"
  t_images :: "(string \<times> tmpl_obj) list option"
  t_materials :: "(string \<times> tmpl_obj) list option"
  t_shaders :: "(string \<times> tmpl_obj) list option"
  t_animations :: "(string \<times> tmpl_obj) list option"
  t_skins :: "(string \<times> tmpl_obj) list option"
  t_pipelines :: "(string \<times> tmpl_obj) list option"

record templateProject =
  tp_meshes :: "string \<rightharpoonup> tmpl_obj"
  tp_textures :: "string \<rightharpoonup> tmpl_obj"
  tp_images :: "string \<rightharpoonup> tmpl_obj"
  tp_materials :: "string \<rightharpoonup> tmpl_obj"
  tp_shaders :: "string \<rightharpoonup> tmpl_obj"
  tp_pipelines :: "string \<rightharpoonup> tmpl_obj"

definition getMaxId :: "(string \<Rightarrow> nat option) \<Rightarrow> string \<Rightarrow> jsval \<Rightarrow> jsval" where
  "getMaxId Number newIDStr maxID =
     (case Number newIDStr of
        None \<Rightarrow> maxID
      | Some idNum \<Rightarrow> if js_le Number idNum maxID then maxID else Num idNum)"

definition maybeAddDefaultObj ::
  "(string \<rightharpoonup> tmpl_obj) \<Rightarrow> string \<Rightarrow> tmpl_obj \<Rightarrow> error + (string \<rightharpoonup> tmpl_obj)" where
  "maybeAddDefaultObj outList idStr obj =
     (case tlink obj of
        LinkAbsent \<Rightarrow> Inr outList
      | LinkNull \<Rightarrow> Inl TypeError
      | LinkObj nm file \<Rightarrow> if file = ''default'' then Inr (outList(idStr \<mapsto> obj)) else Inr outList)"

text \<open>The loop over a category whose ids only count for the maximum (objects).\<close>

fun scan_ids :: "(string \<Rightarrow> nat option) \<Rightarrow> (string \<times> tmpl_obj) list \<Rightarrow> jsval \<Rightarrow> jsval" where
  "scan_ids Number [] maxID = maxID"
| "scan_ids Number ((i, ob) # es) maxID = scan_ids Number es (getMaxId Number i maxID)"

text \<open>
  The loop over animations and skins, whose call is \<open>getMaxId(id, id, maxID)\<close>: the second
  parameter of \<open>getMaxId\<close> receives the key, the running maximum is a third argument that
  the function does not read.
\<close>

fun scan_ids3 :: "(string \<Rightarrow> nat option) \<Rightarrow> (string \<times> tmpl_obj) list \<Rightarrow> jsval \<Rightarrow> jsval" where
  "scan_ids3 Number [] maxID = maxID"
| "scan_ids3 Number ((i, ob) # es) maxID = scan_ids3 Number es (getMaxId Number i (Str i))"

text \<open>The loop over a category that also collects its default entries.\<close>

fun scan_defaults ::
  "(string \<Rightarrow> nat option) \<Rightarrow> (string \<times> tmpl_obj) list \<Rightarrow> jsval \<times> (string \<rightharpoonup> tmpl_obj)
     \<Rightarrow> error + jsval \<times> (string \<rightharpoonup> tmpl_obj)" where
  "scan_defaults Number [] acc = Inr acc"
| "scan_defaults Number ((i, ob) # es) (maxID, outList) =
     (case maybeAddDefaultObj outList i ob of
        Inl e \<Rightarrow> Inl e
      | Inr outList' \<Rightarrow> scan_defaults Number es (getMaxId Number i maxID, outList'))"

definition scan_opt ::
  "(string \<Rightarrow> nat option) \<Rightarrow> (string \<times> tmpl_obj) list option \<Rightarrow> jsval
     \<Rightarrow> error + jsval \<times> (string \<rightharpoonup> tmpl_obj)" where
  "scan_opt Number cat maxID =
     (case cat of None \<Rightarrow> Inr (maxID, Map.empty)
      | Some es \<Rightarrow> scan_defaults Number es (maxID, Map.empty))"

definition parseTemplateProject ::
  "(string \<Rightarrow> nat option) \<Rightarrow> template_json \<Rightarrow> error + templateProject \<times> jsval" where
  "parseTemplateProject Number json =
     (let m0 = (case t_objects json of None \<Rightarrow> Num 0 | Some es \<Rightarrow> scan_ids Number es (Num 0)) in
      case scan_opt Number (t_meshes json) m0 of Inl e \<Rightarrow> Inl e | Inr (m1, meshes) \<Rightarrow>
      case scan_opt Number (t_textures json) m1 of Inl e \<Rightarrow> Inl e | Inr (m2, textures) \<Rightarrow>
      case scan_opt Number (t_images json) m2 of Inl e \<Rightarrow> Inl e | Inr (m3, images) \<Rightarrow>
      case scan_opt Number (t_materials json) m3 of Inl e \<Rightarrow> Inl e | Inr (m4, materials) \<Rightarrow>
      case scan_opt Number (t_shaders json) m4 of Inl e \<Rightarrow> Inl e | Inr (m5, shaders) \<Rightarrow>
      let m6 = (case t_animations json of None \<Rightarrow> m5 | Some es \<Rightarrow> scan_ids3 Number es m5);
          m7 = (case t_skins json of None \<Rightarrow> m6 | Some es \<Rightarrow> scan_ids3 Number es m6) in
      case scan_opt Number (t_pipelines json) m7 of Inl e \<Rightarrow> Inl e | Inr (m8, pipelines) \<Rightarrow>
      Inr (\<lparr>tp_meshes = meshes, tp_textures = textures, tp_images = images,
            tp_materials = materials, tp_shaders = shaders, tp_pipelines = pipelines\<rparr>, m8))"

text \<open>\<open>let curID = reservedIDs + templateMinID + 1\<close> of \<open>main\<close>.\<close>

definition main_curID :: "nat \<Rightarrow> jsval \<Rightarrow> jsval" where
  "main_curID reservedIDs templateMinID = js_add (js_add (Num reservedIDs) templateMinID) (Num 1)"

text \<open>A template entry with no link, and a template document with no category.\<close>

definition bare :: "string \<Rightarrow> string \<times> tmpl_obj" where
  "bare k = (k, \<lparr>tlink = LinkAbsent, other = []\<rparr>)"

definition no_categories :: template_json where
  "no_categories = \<lparr>t_objects = None, t_meshes = None, t_textures = None, t_images = None,
     t_materials = None, t_shaders = None, t_animations = None, t_skins = None,
     t_pipelines = None\<rparr>"

section \<open>The scene tree: class Node\<close>

text \<open>
  Nodes are objects with identity, linked in both directions (\<open>children\<close>, \<open>parent\<close>) and
  updated in place, so they live in a store: \<open>Tree\<close> is the virtual root
  (\<open>new Node(true)\<close>), \<open>Flat i\<close> is \<open>nodesFlat[i]\<close>. The field \<open>_path\<close> is \<open>path_memo\<close> and
  the field \<open>id\<close> is \<open>nid\<close>. \<open>meshSkin\<close> holds \<open>null\<close>, a skin id, or \<open>undefined\<close> (what
  \<open>skinsMap.get\<close> gives for a skin index that is not there).
\<close>

datatype ref = Tree | Flat nat

datatype skin_slot = Null | Undefined | SkinId nat

record Node =
  children :: "ref list"
  parent :: "ref option"
  name :: "string option"
  path_memo :: "string option"
  nid :: "nat option"
  meshSkin :: skin_slot
  skin :: "nat option"

type_synonym heap = "ref \<Rightarrow> Node"

definition new_Node :: "bool \<Rightarrow> Node" where
  "new_Node is_root = \<lparr>children = [], parent = None, name = None,
     path_memo = (if is_root then Some [] else None), nid = None, meshSkin = Null, skin = None\<rparr>"

definition setParent :: "ref \<Rightarrow> ref \<Rightarrow> heap \<Rightarrow> heap" where
  "setParent this par h =
     (let h1 = h(this := (h this)\<lparr>parent := Some par\<rparr>)
      in h1(par := (h1 par)\<lparr>children := children (h1 par) @ [this]\<rparr>))"

fun indexOf :: "'a list \<Rightarrow> 'a \<Rightarrow> nat option" where
  "indexOf [] x = None"
| "indexOf (y # ys) x = (if y = x then Some 0 else map_option Suc (indexOf ys x))"

text \<open>
  The getter \<open>path\<close>. It calls itself on the parent, so it takes the depth of call stack
  it may use: \<open>None\<close> is a recursion that does not come back within it. Reading a property
  of a \<open>parent\<close> that is \<open>null\<close> is a TypeError.
\<close>

fun path :: "nat \<Rightarrow> heap \<Rightarrow> ref \<Rightarrow> (error + string \<times> heap) option" where
  "path 0 h this = None"
| "path (Suc k) h this =
     (case path_memo (h this) of
        Some p \<Rightarrow> Some (Inr (p, h))
      | None \<Rightarrow>
         (case parent (h this) of
            None \<Rightarrow> Some (Inl TypeError)
          | Some par \<Rightarrow>
             (case (case name (h this) of
                      Some n \<Rightarrow> Inr n
                    | None \<Rightarrow>
                       (case indexOf (children (h par)) this of
                          None \<Rightarrow> Inl NodeNotPresentInParent
                        | Some childNumber \<Rightarrow> Inr (''object_'' @ toString childNumber))) of
                Inl e \<Rightarrow> Some (Inl e)
              | Inr nm \<Rightarrow>
                 (case nid (h par) of
                    None \<Rightarrow> Some (Inr (nm, h(this := (h this)\<lparr>path_memo := Some nm\<rparr>)))
                  | Some i \<Rightarrow>
                     (case path k h par of
                        None \<Rightarrow> None
                      | Some (Inl e) \<Rightarrow> Some (Inl e)
                      | Some (Inr (pp, h')) \<Rightarrow>
                          Some (Inr (nm @ ''<'' @ pp,
                            h'(this := (h' this)\<lparr>path_memo := Some (nm @ ''<'' @ pp)\<rparr>))))))))"

text \<open>One turn of the loop of \<open>reverse\<close>, on the pair \<open>first\<close>, \<open>second\<close>.\<close>

definition set_parents :: "ref \<Rightarrow> ref list \<Rightarrow> heap \<Rightarrow> heap" where
  "set_parents par cs h = fold (\<lambda>c g. g(c := (g c)\<lparr>parent := Some par\<rparr>)) cs h"

definition swap_pair :: "ref \<Rightarrow> ref \<Rightarrow> heap \<Rightarrow> heap" where
  "swap_pair first second h =
     (let h1 = set_parents second (children (h first)) h;
          h2 = set_parents first (children (h1 second)) h1;
          fc = children (h2 first);
          sc = children (h2 second);
          h3 = h2(first := (h2 first)\<lparr>children := sc\<rparr>)
      in h3(second := (h3 second)\<lparr>children := fc\<rparr>))"

text \<open>
  The loop of \<open>reverse\<close> from index \<open>i\<close> on; \<open>this.children\<close> is read again at every turn,
  as the source does.
\<close>

partial_function (option) reverse_from :: "nat \<Rightarrow> ref \<Rightarrow> heap \<Rightarrow> heap option" where
  "reverse_from i this h =
     (if i < length (children (h this)) div 2
      then reverse_from (Suc i) this
             (swap_pair (children (h this) ! i)
                        (children (h this) ! (length (children (h this)) - i - 1)) h)
      else Some h)"

declare reverse_from.simps [code]

definition reverse :: "ref \<Rightarrow> heap \<Rightarrow> heap option" where
  "reverse this h = reverse_from 0 this h"

text \<open>
  \<open>dfs(callback)\<close>. The state the callback works on is \<open>'s\<close>, and \<open>hp\<close> reads the store of
  nodes in it. The first argument of the callback and of \<open>dfs\<close> is the depth of call
  stack left.
\<close>

fun dfs :: "('s \<Rightarrow> heap) \<Rightarrow> (nat \<Rightarrow> ref \<Rightarrow> 's \<Rightarrow> (error + 's) option) \<Rightarrow> nat \<Rightarrow> ref \<Rightarrow> 's
              \<Rightarrow> (error + 's) option"
  and dfs_children :: "('s \<Rightarrow> heap) \<Rightarrow> (nat \<Rightarrow> ref \<Rightarrow> 's \<Rightarrow> (error + 's) option) \<Rightarrow> nat
              \<Rightarrow> ref list \<Rightarrow> 's \<Rightarrow> (error + 's) option" where
  "dfs hp callback 0 this s = None"
| "dfs hp callback (Suc k) this s = dfs_children hp callback k (children (hp s this)) s"
| "dfs_children hp callback k [] s = Some (Inr s)"
| "dfs_children hp callback k (child # rest) s =
     (case callback k child s of
        None \<Rightarrow> None
      | Some (Inl e) \<Rightarrow> Some (Inl e)
      | Some (Inr s1) \<Rightarrow>
         (case dfs hp callback k child s1 of
            None \<Rightarrow> None
          | Some (Inl e) \<Rightarrow> Some (Inl e)
          | Some (Inr s2) \<Rightarrow> dfs_children hp callback k rest s2))"

text \<open>An entry of \<open>project.objects\<close>, as \<open>toJson\<close> builds it.\<close>

record wl_object =
  o_name :: string
  o_file :: string
  o_parent :: "string option"
  o_skin :: "string option"
  o_components :: "string list"

definition toJson :: "nat \<Rightarrow> string \<Rightarrow> ref \<Rightarrow> heap \<Rightarrow> (error + wl_object \<times> heap) option" where
  "toJson k origFilePath this h =
     (case path k h this of
        None \<Rightarrow> None
      | Some (Inl e) \<Rightarrow> Some (Inl e)
      | Some (Inr (p, h1)) \<Rightarrow>
         (case parent (h1 this) of
            None \<Rightarrow> Some (Inl TypeError)
          | Some par \<Rightarrow>
             (case meshSkin (h1 this) of
                Undefined \<Rightarrow> Some (Inl TypeError)
              | Null \<Rightarrow>
                  Some (Inr (\<lparr>o_name = p, o_file = origFilePath,
                    o_parent = map_option toString (nid (h1 par)),
                    o_skin = map_option toString (skin (h1 this)),
                    o_components = []\<rparr>, h1))
              | SkinId m \<Rightarrow>
                  Some (Inr (\<lparr>o_name = p, o_file = origFilePath,
                    o_parent = map_option toString (nid (h1 par)),
                    o_skin = map_option toString (skin (h1 this)),
                    o_components = [toString m]\<rparr>, h1)))))"

section \<open>The project document and the input document\<close>

text \<open>
  An entry of a resource category of the project: an entry kept from the template, a
  bare \<open>link\<close> (name, file), a mesh (with \<open>simplifyTarget\<close> when \<open>simplify\<close> is set), or a
  skin. The \<open>joints\<close> array of a skin is shared with the map \<open>skinsJoints\<close> and filled
  later through it; the entry holds the id under which \<open>skinsJoints\<close> keeps that array.
\<close>

datatype resource =
    Template tmpl_obj
  | Linked string string
  | Mesh string string "real option"
  | Skin string string nat

text \<open>
  The project. Of \<open>settings\<close> only the version varies (the name and
  \<open>packageForStreaming\<close> are constants).
\<close>

record project =
  objects :: "string \<rightharpoonup> wl_object"
  meshes :: "string \<rightharpoonup> resource"
  textures :: "string \<rightharpoonup> resource"
  images :: "string \<rightharpoonup> resource"
  materials :: "string \<rightharpoonup> resource"
  shaders :: "string \<rightharpoonup> tmpl_obj"
  animations :: "string \<rightharpoonup> resource"
  skins :: "string \<rightharpoonup> resource"
  pipelines :: "string \<rightharpoonup> tmpl_obj"
  version :: "nat list"
  files :: "string list"

definition kept :: "bool \<Rightarrow> (string \<rightharpoonup> tmpl_obj) \<Rightarrow> (string \<rightharpoonup> resource)" where
  "kept keepOtherResources m = (if keepOtherResources then (\<lambda>k. map_option Template (m k)) else Map.empty)"

definition generateBaseProject :: "templateProject \<Rightarrow> nat list \<Rightarrow> bool \<Rightarrow> project" where
  "generateBaseProject templateProject ver keepOtherResources =
     \<lparr>objects = Map.empty,
      meshes = kept keepOtherResources (tp_meshes templateProject),
      textures = kept keepOtherResources (tp_textures templateProject),
      images = kept keepOtherResources (tp_images templateProject),
      materials = kept keepOtherResources (tp_materials templateProject),
      shaders = tp_shaders templateProject,
      animations = Map.empty,
      skins = Map.empty,
      pipelines = tp_pipelines templateProject,
      version = ver,
      files = []\<rparr>"

text \<open>
  The input document. A top-level list is absent (\<open>None\<close>) or present. An image,
  material, mesh or animation is its optional name; a texture is its optional source.
\<close>

record skin_json =
  s_name :: "string option"
  s_joints :: "nat list"

record node_json =
  n_name :: "string option"
  n_children :: "nat list option"
  n_skin :: "nat option"

record gltf =
  j_images :: "string option list option"
  j_textures :: "nat option list option"
  j_materials :: "string option list option"
  j_meshes :: "string option list option"
  j_skins :: "skin_json list option"
  j_nodes :: "node_json list option"
  j_animations :: "string option list option"

section \<open>legacyGenerateProject\<close>

text \<open>
  \<open>let name = x.name; if (!name) { name = `pre${defaultNum}`; defaultNum++; }\<close>: a missing
  name and the empty name both take the default.
\<close>

definition default_name :: "string \<Rightarrow> string option \<Rightarrow> nat \<Rightarrow> string \<times> nat" where
  "default_name pre nm defaultNum =
     (case nm of
        None \<Rightarrow> (pre @ toString defaultNum, Suc defaultNum)
      | Some n \<Rightarrow> if n = [] then (pre @ toString defaultNum, Suc defaultNum) else (n, defaultNum))"

text \<open>
  The loops over images, materials and animations have the same body up to the prefix
  of the default name and the category written to. The state is the category, \<open>id\<close> and
  the counter of default names.
\<close>

fun named_loop :: "string \<Rightarrow> string \<Rightarrow> string option list \<Rightarrow> (string \<rightharpoonup> resource) \<times> nat \<times> nat
                    \<Rightarrow> (string \<rightharpoonup> resource) \<times> nat \<times> nat" where
  "named_loop pre file [] acc = acc"
| "named_loop pre file (x # xs) (m, i, defaultNum) =
     named_loop pre file xs
       (m(toString i \<mapsto> Linked (fst (default_name pre x defaultNum)) file), Suc i,
        snd (default_name pre x defaultNum))"

definition gen_named :: "string \<Rightarrow> string \<Rightarrow> string option list option \<Rightarrow> (string \<rightharpoonup> resource) \<times> nat
                    \<Rightarrow> (string \<rightharpoonup> resource) \<times> nat" where
  "gen_named pre file cat acc =
     (case cat of
        None \<Rightarrow> acc
      | Some xs \<Rightarrow> (case named_loop pre file xs (fst acc, snd acc, 0) of (m, i, d) \<Rightarrow> (m, i)))"

text \<open>The loop over textures; the state is the category, \<open>id\<close>, \<open>texSources\<close> and \<open>texCount\<close>.\<close>

fun textures_loop :: "string \<Rightarrow> nat option list \<Rightarrow> (string \<rightharpoonup> resource) \<times> nat \<times> nat option set \<times> nat
                    \<Rightarrow> (string \<rightharpoonup> resource) \<times> nat \<times> nat option set \<times> nat" where
  "textures_loop file [] acc = acc"
| "textures_loop file (source # rest) (m, i, texSources, texCount) =
     (if source \<notin> texSources
      then textures_loop file rest
             (m(toString i \<mapsto> Linked (''texture_'' @ toString texCount) file), Suc i,
              insert source texSources, Suc texCount)
      else textures_loop file rest (m, i, texSources, Suc texCount))"

definition gen_textures :: "string \<Rightarrow> nat option list option \<Rightarrow> (string \<rightharpoonup> resource) \<times> nat
                    \<Rightarrow> (string \<rightharpoonup> resource) \<times> nat" where
  "gen_textures file cat acc =
     (case cat of
        None \<Rightarrow> acc
      | Some ts \<Rightarrow> (case textures_loop file ts (fst acc, snd acc, {}, 0) of (m, i, srcs, c) \<Rightarrow> (m, i)))"

text \<open>The loop over meshes.\<close>

fun meshes_loop :: "string \<Rightarrow> real \<Rightarrow> string option list \<Rightarrow> (string \<rightharpoonup> resource) \<times> nat \<times> nat
                    \<Rightarrow> (string \<rightharpoonup> resource) \<times> nat \<times> nat" where
  "meshes_loop file ratio [] acc = acc"
| "meshes_loop file ratio (x # xs) (m, i, meshDefaultNum) =
     meshes_loop file ratio xs
       (m(toString i \<mapsto> Mesh (fst (default_name ''mesh_'' x meshDefaultNum)) file
                          (if ratio \<noteq> 1 then Some ratio else None)), Suc i,
        snd (default_name ''mesh_'' x meshDefaultNum))"

definition gen_meshes :: "string \<Rightarrow> real \<Rightarrow> string option list option \<Rightarrow> (string \<rightharpoonup> resource) \<times> nat
                    \<Rightarrow> (string \<rightharpoonup> resource) \<times> nat" where
  "gen_meshes file ratio cat acc =
     (case cat of
        None \<Rightarrow> acc
      | Some xs \<Rightarrow> (case meshes_loop file ratio xs (fst acc, snd acc, 0) of (m, i, d) \<Rightarrow> (m, i)))"

text \<open>
  The loop over skins. \<open>skinsMap\<close> sends the index of a skin to its id, \<open>skinsJoints\<close> the
  id of a skin to its \<open>joints\<close> array, \<open>jointIdxs\<close> the index of a node to the id of the
  (last) skin that lists it as a joint.
\<close>

record skins_state =
  sk_skins :: "string \<rightharpoonup> resource"
  sk_id :: nat
  skinDefaultNum :: nat
  skinsMap :: "nat \<rightharpoonup> nat"
  skinsJoints :: "nat \<rightharpoonup> string list"
  jointIdxs :: "nat \<rightharpoonup> nat"
  skinID :: nat

fun skins_loop :: "string \<Rightarrow> skin_json list \<Rightarrow> skins_state \<Rightarrow> skins_state" where
  "skins_loop file [] st = st"
| "skins_loop file (sk # rest) st =
     skins_loop file rest
       \<lparr>sk_skins = (sk_skins st)(toString (sk_id st) \<mapsto>
            Skin (fst (default_name ''skin_'' (s_name sk) (skinDefaultNum st))) file (sk_id st)),
        sk_id = Suc (sk_id st),
        skinDefaultNum = snd (default_name ''skin_'' (s_name sk) (skinDefaultNum st)),
        skinsMap = (skinsMap st)(skinID st \<mapsto> sk_id st),
        skinsJoints = (skinsJoints st)(sk_id st \<mapsto> []),
        jointIdxs = fold (\<lambda>jointIdx m. m(jointIdx \<mapsto> sk_id st)) (s_joints sk) (jointIdxs st),
        skinID = Suc (skinID st)\<rparr>"

definition gen_skins :: "string \<Rightarrow> skin_json list option \<Rightarrow> (string \<rightharpoonup> resource) \<times> nat \<Rightarrow> skins_state" where
  "gen_skins file cat acc =
     (let st0 = \<lparr>sk_skins = fst acc, sk_id = snd acc, skinDefaultNum = 0, skinsMap = Map.empty,
                 skinsJoints = Map.empty, jointIdxs = Map.empty, skinID = 0\<rparr>
      in case cat of None \<Rightarrow> st0 | Some sks \<Rightarrow> skins_loop file sks st0)"

text \<open>
  Building the tree. \<open>nodesFlat[childIdx]\<close> is \<open>undefined\<close> for an index that is not one
  of a node, and calling \<open>setParent\<close> on it is a TypeError. \<open>orphans\<close> is a \<open>Set\<close>, which
  keeps its elements in the order they were added: a list here.
\<close>

fun children_loop :: "nat \<Rightarrow> ref \<Rightarrow> nat list \<Rightarrow> heap \<times> nat list \<Rightarrow> error + heap \<times> nat list" where
  "children_loop nodeCount node [] acc = Inr acc"
| "children_loop nodeCount node (childIdx # rest) (h, orphans) =
     (if childIdx < nodeCount
      then children_loop nodeCount node rest
             (setParent (Flat childIdx) node h, removeAll childIdx orphans)
      else Inl TypeError)"

fun nodes_loop :: "nat \<Rightarrow> (nat \<rightharpoonup> nat) \<Rightarrow> (nat \<rightharpoonup> nat) \<Rightarrow> node_json list \<Rightarrow> nat \<Rightarrow> heap \<times> nat list
                    \<Rightarrow> error + heap \<times> nat list" where
  "nodes_loop nodeCount skMap jIdxs [] idx acc = Inr acc"
| "nodes_loop nodeCount skMap jIdxs (nodeObj # rest) idx (h, orphans) =
     (let node = Flat idx;
          h1 = (case n_name nodeObj of
                  None \<Rightarrow> h
                | Some nm \<Rightarrow> h(node := (h node)\<lparr>name := Some nm\<rparr>))
      in case (case n_children nodeObj of
                 None \<Rightarrow> Inr (h1, orphans)
               | Some cs \<Rightarrow> children_loop nodeCount node cs (h1, orphans)) of
           Inl e \<Rightarrow> Inl e
         | Inr (h2, orphans') \<Rightarrow>
            (let h3 = (case n_skin nodeObj of
                         None \<Rightarrow> h2
                       | Some sk \<Rightarrow>
                           h2(node := (h2 node)\<lparr>meshSkin :=
                                (case skMap sk of None \<Rightarrow> Undefined | Some i \<Rightarrow> SkinId i)\<rparr>));
                 h4 = (case jIdxs idx of
                         None \<Rightarrow> h3
                       | Some sid \<Rightarrow> h3(node := (h3 node)\<lparr>skin := Some sid\<rparr>))
             in nodes_loop nodeCount skMap jIdxs rest (Suc idx) (h4, orphans')))"

text \<open>
  \<open>orphansOrdered.sort()\<close> has no comparison function: the elements are compared as the
  strings \<open>toString\<close> gives, by their characters.
\<close>

definition js_sort :: "nat list \<Rightarrow> nat list" where
  "js_sort xs = sort_key toString xs"

definition new_heap :: heap where
  "new_heap = (\<lambda>r. new_Node (r = Tree))"

definition build_tree :: "(nat \<rightharpoonup> nat) \<Rightarrow> (nat \<rightharpoonup> nat) \<Rightarrow> node_json list \<Rightarrow> error + heap" where
  "build_tree skMap jIdxs nodes =
     (case nodes_loop (length nodes) skMap jIdxs nodes 0 (new_heap, [0..<length nodes]) of
        Inl e \<Rightarrow> Inl e
      | Inr (h, orphans) \<Rightarrow>
          Inr (fold (\<lambda>orphanIdx g. setParent (Flat orphanIdx) Tree g) (js_sort orphans) h))"

text \<open>The state of the traversal, and its callback.\<close>

record gstate =
  g_heap :: heap
  g_id :: nat
  g_skinsJoints :: "nat \<rightharpoonup> string list"
  g_objects :: "string \<rightharpoonup> wl_object"

definition visit :: "string \<Rightarrow> nat \<Rightarrow> ref \<Rightarrow> gstate \<Rightarrow> (error + gstate) option" where
  "visit file k node s =
     (let h1 = (g_heap s)(node := (g_heap s node)\<lparr>nid := Some (g_id s)\<rparr>)
      in case (case skin (h1 node) of
                 None \<Rightarrow> Inr (g_skinsJoints s)
               | Some sid \<Rightarrow>
                  (case g_skinsJoints s sid of
                     None \<Rightarrow> Inl TypeError
                   | Some arr \<Rightarrow> Inr ((g_skinsJoints s)(sid \<mapsto> arr @ [toString (g_id s)])))) of
           Inl e \<Rightarrow> Some (Inl e)
         | Inr sj \<Rightarrow>
            (case toJson k file node h1 of
               None \<Rightarrow> None
             | Some (Inl e) \<Rightarrow> Some (Inl e)
             | Some (Inr (ob, h2)) \<Rightarrow>
                 Some (Inr \<lparr>g_heap = h2, g_id = Suc (g_id s), g_skinsJoints = sj,
                            g_objects = (g_objects s)(toString (g_id s) \<mapsto> ob)\<rparr>)))"

definition gen_objects ::
  "nat \<Rightarrow> string \<Rightarrow> node_json list option \<Rightarrow> (nat \<rightharpoonup> nat) \<Rightarrow> (nat \<rightharpoonup> nat)
     \<Rightarrow> (string \<rightharpoonup> wl_object) \<Rightarrow> (nat \<rightharpoonup> string list) \<Rightarrow> nat \<Rightarrow> (error + gstate) option" where
  "gen_objects stack file cat skMap jIdxs objs sj i =
     (case cat of
        None \<Rightarrow> Some (Inr \<lparr>g_heap = new_heap, g_id = i, g_skinsJoints = sj, g_objects = objs\<rparr>)
      | Some nodes \<Rightarrow>
         (case build_tree skMap jIdxs nodes of
            Inl e \<Rightarrow> Some (Inl e)
          | Inr h \<Rightarrow>
             (case reverse Tree h of
                None \<Rightarrow> None
              | Some h' \<Rightarrow>
                  dfs g_heap (visit file) stack Tree
                    \<lparr>g_heap = h', g_id = i, g_skinsJoints = sj, g_objects = objs\<rparr>)))"

text \<open>
  The function. \<open>stack\<close> is the depth of call stack the traversal may use; \<open>None\<close> is a
  traversal that does not come back within it. The result is the project as
  \<open>writeProject\<close> receives it, the \<open>joints\<close> arrays of its skins by skin id, and the next
  free id. \<open>origFilePath\<close>, \<open>outputName\<close> and \<open>tempProjDir\<close> only name files and are left out.
\<close>

definition legacyGenerateProject ::
  "nat \<Rightarrow> string \<Rightarrow> real \<Rightarrow> nat \<Rightarrow> templateProject \<Rightarrow> nat list \<Rightarrow> bool \<Rightarrow> gltf
     \<Rightarrow> (error + project \<times> (nat \<rightharpoonup> string list) \<times> nat) option" where
  "legacyGenerateProject stack symlinkRelPath ratio curID templateProject ver keepOtherResources json =
     (let project = generateBaseProject templateProject ver keepOtherResources;
          img = gen_named ''image_'' symlinkRelPath (j_images json) (images project, curID);
          tex = gen_textures symlinkRelPath (j_textures json) (textures project, snd img);
          mat = gen_named ''material_'' symlinkRelPath (j_materials json) (materials project, snd tex);
          msh = gen_meshes symlinkRelPath ratio (j_meshes json) (meshes project, snd mat);
          sks = gen_skins symlinkRelPath (j_skins json) (skins project, snd msh)
      in case gen_objects stack symlinkRelPath (j_nodes json) (skinsMap sks) (jointIdxs sks)
                (objects project) (skinsJoints sks) (sk_id sks) of
           None \<Rightarrow> None
         | Some (Inl e) \<Rightarrow> Some (Inl e)
         | Some (Inr s) \<Rightarrow>
            (let ani = gen_named ''animation_'' symlinkRelPath (j_animations json)
                         (animations project, g_id s)
             in Some (Inr (project\<lparr>objects := g_objects s, meshes := fst msh, textures := fst tex,
                             images := fst img, materials := fst mat, animations := fst ani,
                             skins := sk_skins sks, files := files project @ [symlinkRelPath]\<rparr>,
                           g_skinsJoints s, snd ani))))"

text \<open>The \<open>joints\<close> list of the skin entry under a key, as the written project holds it.\<close>

definition emitted_joints :: "project \<Rightarrow> (nat \<rightharpoonup> string list) \<Rightarrow> string \<Rightarrow> string list option" where
  "emitted_joints p arrays key =
     (case skins p key of Some (Skin nm file a) \<Rightarrow> arrays a | _ \<Rightarrow> None)"

section \<open>Notions used to state the properties\<close>

text \<open>The number of entries of an optional list: none when the list is absent.\<close>

definition size_opt :: "'a list option \<Rightarrow> nat" where
  "size_opt cat = (case cat of None \<Rightarrow> 0 | Some xs \<Rightarrow> length xs)"

text \<open>
  The order of the traversal: the nodes \<open>dfs\<close> hands to its callback, in the order of
  the calls, recorded by a callback that does nothing else.
\<close>

definition record_visit :: "nat \<Rightarrow> ref \<Rightarrow> heap \<times> ref list \<Rightarrow> (error + heap \<times> ref list) option" where
  "record_visit k node s = Some (Inr (fst s, snd s @ [node]))"

definition dfs_order :: "heap \<Rightarrow> nat \<Rightarrow> ref \<Rightarrow> ref list option" where
  "dfs_order h k this =
     (case dfs fst record_visit k this (h, []) of Some (Inr s) \<Rightarrow> Some (snd s) | _ \<Rightarrow> None)"


text \<open>Inputs used as examples.\<close>

definition no_lists :: gltf where
  "no_lists = \<lparr>j_images = None, j_textures = None, j_materials = None, j_meshes = None,
     j_skins = None, j_nodes = None, j_animations = None\<rparr>"

definition node :: "string option \<Rightarrow> nat list option \<Rightarrow> node_json" where
  "node nm cs = \<lparr>n_name = nm, n_children = cs, n_skin = None\<rparr>"

definition no_template :: templateProject where
  "no_template = \<lparr>tp_meshes = Map.empty, tp_textures = Map.empty, tp_images = Map.empty,
     tp_materials = Map.empty, tp_shaders = Map.empty, tp_pipelines = Map.empty\<rparr>"


text \<open>
  Two stores with the same tree and the same data on every node: they may differ in
  the ids and in the remembered paths only.
\<close>

definition shape_eq :: "heap \<Rightarrow> heap \<Rightarrow> bool" where
  "shape_eq h h' \<longleftrightarrow>
     (\<forall>r. children (h' r) = children (h r) \<and> parent (h' r) = parent (h r)
        \<and> name (h' r) = name (h r) \<and> meshSkin (h' r) = meshSkin (h r) \<and> skin (h' r) = skin (h r))"

text \<open>
  The visited nodes with their ids: the traversal starts at id \<open>i\<close> and takes the next
  id at every visit.
\<close>

definition with_ids :: "nat \<Rightarrow> ref list \<Rightarrow> (nat \<times> ref) list" where
  "with_ids i vs = zip [i..<i + length vs] vs"


text \<open>A template with one built-in mesh, as the default template of \<open>main\<close> has.\<close>

definition plane_template :: templateProject where
  "plane_template = no_template\<lparr>tp_meshes :=
     [''p0'' \<mapsto> \<lparr>tlink = LinkObj ''PrimitivePlane'' ''default'', other = []\<rparr>]\<rparr>"

text \<open>
  The state of the loop of \<open>reverse\<close> on a node whose child list is \<open>cs\<close>, after \<open>i\<close> turns
  from the store \<open>h\<close>: the outer \<open>i\<close> pairs have exchanged their child lists, and the
  nodes of those lists have the other node of the pair as parent.
\<close>

definition reversed :: "heap \<Rightarrow> ref list \<Rightarrow> nat \<Rightarrow> heap \<Rightarrow> bool" where
  "reversed h cs i h' \<longleftrightarrow>
     (\<forall>j<length cs. children (h' (cs ! j)) =
        (if j < i \<or> length cs - i \<le> j then children (h (cs ! (length cs - 1 - j)))
         else children (h (cs ! j))))
   \<and> (\<forall>r. r \<notin> set cs \<longrightarrow> children (h' r) = children (h r))
   \<and> (\<forall>j<length cs. (j < i \<or> length cs - i \<le> j) \<longrightarrow>
        (\<forall>g\<in>set (children (h (cs ! j))). parent (h' g) = Some (cs ! (length cs - 1 - j))))
   \<and> (\<forall>g. (\<forall>j<length cs. (j < i \<or> length cs - i \<le> j) \<longrightarrow> g \<notin> set (children (h (cs ! j))))
        \<longrightarrow> parent (h' g) = parent (h g))
   \<and> (\<forall>r. name (h' r) = name (h r) \<and> path_memo (h' r) = path_memo (h r) \<and> nid (h' r) = nid (h r)
        \<and> meshSkin (h' r) = meshSkin (h r) \<and> skin (h' r) = skin (h r))"

text \<open>The child lists of different nodes of \<open>cs\<close> share no node.\<close>

definition disjoint_children :: "heap \<Rightarrow> ref list \<Rightarrow> bool" where
  "disjoint_children h cs \<longleftrightarrow>
     (\<forall>a\<in>set cs. \<forall>b\<in>set cs. a \<noteq> b \<longrightarrow> set (children (h a)) \<inter> set (children (h b)) = {})"

text \<open>
  Five nodes: A, B, C and D at the top, in this order, and a1, the only child of A. And
  the store after the tree of these nodes is built.
\<close>

definition family :: "node_json list" where
  "family = [node (Some ''A'') (Some [4]), node (Some ''B'') None, node (Some ''C'') None,
             node (Some ''D'') None, node (Some ''a1'') None]"

definition family_heap :: heap where
  "family_heap = (case build_tree Map.empty Map.empty family of Inr h \<Rightarrow> h | Inl e \<Rightarrow> new_heap)"


text \<open>The child indices a node of the input lists: none when it has no \<open>children\<close>.\<close>

definition kids :: "node_json \<Rightarrow> nat list" where
  "kids nodeObj = (case n_children nodeObj of None \<Rightarrow> [] | Some cs \<Rightarrow> cs)"

text \<open>
  What one turn of the loop over the nodes does to the store, for the node \<open>nodeObj\<close> at
  index \<open>idx\<close>, when its child indices are indices of nodes.
\<close>

definition node_step :: "(nat \<rightharpoonup> nat) \<Rightarrow> (nat \<rightharpoonup> nat) \<Rightarrow> node_json \<Rightarrow> nat \<Rightarrow> heap \<Rightarrow> heap" where
  "node_step skMap jIdxs nodeObj idx h =
     (\<lambda>r. (h r)\<lparr>
        children := children (h r) @ (if r = Flat idx then map Flat (kids nodeObj) else []),
        parent := (if r \<in> Flat ` set (kids nodeObj) then Some (Flat idx) else parent (h r)),
        name := (if r = Flat idx then (case n_name nodeObj of None \<Rightarrow> name (h r) | Some nm \<Rightarrow> Some nm)
                 else name (h r)),
        meshSkin := (if r = Flat idx
                     then (case n_skin nodeObj of
                             None \<Rightarrow> meshSkin (h r)
                           | Some sk \<Rightarrow> (case skMap sk of None \<Rightarrow> Undefined | Some i \<Rightarrow> SkinId i))
                     else meshSkin (h r)),
        skin := (if r = Flat idx then (case jIdxs idx of None \<Rightarrow> skin (h r) | Some sid \<Rightarrow> Some sid)
                 else skin (h r))\<rparr>)"

text \<open>The turns of the loop over the nodes \<open>ns\<close>, the first of them at index \<open>idx\<close>.\<close>

fun node_steps :: "(nat \<rightharpoonup> nat) \<Rightarrow> (nat \<rightharpoonup> nat) \<Rightarrow> node_json list \<Rightarrow> nat \<Rightarrow> heap \<Rightarrow> heap" where
  "node_steps skMap jIdxs [] idx h = h"
| "node_steps skMap jIdxs (nodeObj # rest) idx h =
     node_steps skMap jIdxs rest (Suc idx) (node_step skMap jIdxs nodeObj idx h)"

text \<open>The orphans: the indices no node lists as a child, in ascending order.\<close>

definition orphans_of :: "node_json list \<Rightarrow> nat list" where
  "orphans_of nodes = filter (\<lambda>x. \<forall>n\<in>set nodes. x \<notin> set (kids n)) [0..<length nodes]"

text \<open>The store \<open>build_tree\<close> returns when every child index is the index of a node.\<close>

definition built :: "(nat \<rightharpoonup> nat) \<Rightarrow> (nat \<rightharpoonup> nat) \<Rightarrow> node_json list \<Rightarrow> heap" where
  "built skMap jIdxs nodes =
     fold (\<lambda>orphanIdx g. setParent (Flat orphanIdx) Tree g) (js_sort (orphans_of nodes))
       (node_steps skMap jIdxs nodes 0 new_heap)"

text \<open>Every child index is the index of a node.\<close>

definition in_range :: "node_json list \<Rightarrow> bool" where
  "in_range nodes \<longleftrightarrow> (\<forall>n\<in>set nodes. \<forall>c\<in>set (kids n). c < length nodes)"

text \<open>
  No node is listed as a child twice: neither by two nodes nor twice by one.
\<close>

definition listed_once :: "node_json list \<Rightarrow> bool" where
  "listed_once nodes \<longleftrightarrow> distinct (concat (map kids nodes))"

text \<open>
  Nine nodes: A, B, C and D at the top, in this order; a1 and a2 under A, b1 under B,
  c1 under C, and x under a1. And the store after the tree of these nodes is built.
\<close>

definition clan :: "node_json list" where
  "clan = [node (Some ''A'') (Some [4, 5]), node (Some ''B'') (Some [6]),
           node (Some ''C'') (Some [7]), node (Some ''D'') None,
           node (Some ''a1'') (Some [8]), node (Some ''a2'') None, node (Some ''b1'') None,
           node (Some ''c1'') None, node (Some ''x'') None]"

definition clan_heap :: heap where
  "clan_heap = (case build_tree Map.empty Map.empty clan of Inr h \<Rightarrow> h | Inl e \<Rightarrow> new_heap)"

text \<open>Three nodes, the third listed as a child by both others.\<close>

definition shared_child :: "node_json list" where
  "shared_child = [node None (Some [2]), node None (Some [2]), node None None]"

(*DEFS-END*)

section \<open>Properties of the template project\<close>

lemma getMaxId_self: "getMaxId Number i (Str i) = Str i"
  by (simp add: getMaxId_def split: option.splits)

lemma scan_ids3_last: "es \<noteq> [] \<Longrightarrow> scan_ids3 Number es m = Str (fst (last es))"
proof (induction es arbitrary: m)
  case Nil
  then show ?case by simp
next
  case (Cons e es)
  obtain i ob where e: "e = (i, ob)" by (cases e)
  show ?case
  proof (cases "es = []")
    case True
    then show ?thesis by (simp add: e getMaxId_self)
  next
    case False
    then show ?thesis using Cons.IH [OF False] by (simp add: e)
  qed
qed

text \<open>
  C3. The maximum id of a template is the greatest numeric key over all its categories,
  also when the greatest key is one of animations or skins. The code does not do this:
  after the animations (or skins) the running maximum is the last key of that category,
  as a string, whatever the maximum was before. With objects \<open>{"50"}\<close> and animations
  \<open>{"3"}\<close> the result is the string \<open>"3"\<close>, not 50; with animations
  \<open>{"5", "12", "foo"}\<close> it is the string \<open>"foo"\<close>, not 12; the same keys under meshes
  give 12.
\<close>

theorem parseTemplateProject_animations_maxId:
  "map_sum id snd (parseTemplateProject decimal
      (no_categories\<lparr>t_objects := Some [bare ''50''], t_animations := Some [bare ''3'']\<rparr>))
     = Inr (Str ''3'')
   \<and> map_sum id snd (parseTemplateProject decimal
      (no_categories\<lparr>t_animations := Some [bare ''5'', bare ''12'', bare ''foo'']\<rparr>))
     = Inr (Str ''foo'')
   \<and> map_sum id snd (parseTemplateProject decimal
      (no_categories\<lparr>t_meshes := Some [bare ''5'', bare ''12'', bare ''foo'']\<rparr>))
     = Inr (Num 12)"
  by (simp add: parseTemplateProject_def no_categories_def bare_def scan_opt_def
      maybeAddDefaultObj_def getMaxId_def decimal_def digit_val_def)

section \<open>The starting id\<close>

text \<open>
  C4, as the specification states it: the starting id is \<open>max(reservedIds, maxId) + 1\<close>.
  With 5 reserved ids and a template whose maximum id is 28 the code starts at 34, not
  at 29.
\<close>

theorem curID_not_max: "main_curID 5 (Num 28) = Num 34 \<and> Num 34 \<noteq> Num (max 5 28 + 1)"
  by (simp add: main_curID_def)

lemma getMaxId_Num: "\<exists>m'. getMaxId Number i (Num m) = Num m'"
  by (simp add: getMaxId_def split: option.splits)

lemma scan_ids_Num: "\<exists>m'. scan_ids Number es (Num m) = Num m'"
proof (induction es arbitrary: m)
  case Nil
  then show ?case by simp
next
  case (Cons e es)
  obtain i ob where e: "e = (i, ob)" by (cases e)
  obtain m1 where "getMaxId Number i (Num m) = Num m1" using getMaxId_Num by blast
  then show ?case using Cons.IH [of m1] e by simp
qed

lemma scan_defaults_Num:
  "scan_defaults Number es (Num m, out) = Inr (v, out') \<Longrightarrow> \<exists>m'. v = Num m'"
proof (induction es arbitrary: m out)
  case Nil
  then show ?case by auto
next
  case (Cons e es)
  obtain i ob where e: "e = (i, ob)" by (cases e)
  obtain m1 where m1: "getMaxId Number i (Num m) = Num m1" using getMaxId_Num by blast
  obtain out1 where "maybeAddDefaultObj out i ob = Inr out1"
    and "scan_defaults Number es (Num m1, out1) = Inr (v, out')"
    using Cons.prems e m1 by (auto split: sum.splits)
  then show ?case using Cons.IH by blast
qed

lemma scan_opt_Num: "scan_opt Number cat (Num m) = Inr (v, out') \<Longrightarrow> \<exists>m'. v = Num m'"
  by (cases cat) (auto simp: scan_opt_def dest: scan_defaults_Num)

lemma parseTemplateProject_Num:
  assumes run: "parseTemplateProject Number json = Inr (tp, m)"
    and an: "size_opt (t_animations json) = 0" and sk: "size_opt (t_skins json) = 0"
  shows "\<exists>maxId. m = Num maxId"
proof -
  obtain m0 where m0: "(case t_objects json of None \<Rightarrow> Num 0 | Some es \<Rightarrow> scan_ids Number es (Num 0)) = Num m0"
    using scan_ids_Num [of Number _ 0] by (cases "t_objects json") auto
  have a: "(case t_animations json of None \<Rightarrow> x | Some es \<Rightarrow> scan_ids3 Number es x) = x" for x
    using an by (cases "t_animations json") (auto simp: size_opt_def)
  have s: "(case t_skins json of None \<Rightarrow> x | Some es \<Rightarrow> scan_ids3 Number es x) = x" for x
    using sk by (cases "t_skins json") (auto simp: size_opt_def)
  obtain v1 o1 where 1: "scan_opt Number (t_meshes json) (Num m0) = Inr (v1, o1)"
    using run m0 unfolding parseTemplateProject_def Let_def by (auto split: sum.splits)
  obtain m1 where m1: "v1 = Num m1" using scan_opt_Num [OF 1] by blast
  obtain v2 o2 where 2: "scan_opt Number (t_textures json) (Num m1) = Inr (v2, o2)"
    using run m0 1 m1 unfolding parseTemplateProject_def Let_def by (auto split: sum.splits)
  obtain m2 where m2: "v2 = Num m2" using scan_opt_Num [OF 2] by blast
  obtain v3 o3 where 3: "scan_opt Number (t_images json) (Num m2) = Inr (v3, o3)"
    using run m0 1 m1 2 m2 unfolding parseTemplateProject_def Let_def by (auto split: sum.splits)
  obtain m3 where m3: "v3 = Num m3" using scan_opt_Num [OF 3] by blast
  obtain v4 o4 where 4: "scan_opt Number (t_materials json) (Num m3) = Inr (v4, o4)"
    using run m0 1 m1 2 m2 3 m3 unfolding parseTemplateProject_def Let_def by (auto split: sum.splits)
  obtain m4 where m4: "v4 = Num m4" using scan_opt_Num [OF 4] by blast
  obtain v5 o5 where 5: "scan_opt Number (t_shaders json) (Num m4) = Inr (v5, o5)"
    using run m0 1 m1 2 m2 3 m3 4 m4 unfolding parseTemplateProject_def Let_def
    by (auto split: sum.splits)
  obtain m5 where m5: "v5 = Num m5" using scan_opt_Num [OF 5] by blast
  obtain v8 o8 where 8: "scan_opt Number (t_pipelines json) (Num m5) = Inr (v8, o8)" and m: "m = v8"
    using run m0 1 m1 2 m2 3 m3 4 m4 5 m5 a s unfolding parseTemplateProject_def Let_def
    by (auto split: sum.splits)
  show ?thesis using scan_opt_Num [OF 8] m by blast
qed

text \<open>
  C4, amended: when the maximum id computed from the template is a number \<open>maxId\<close>, the
  starting id is \<open>reservedIds + maxId + 1\<close>, the template's maximum id added to the
  reserved count; and the computed maximum is a number for every template that has no
  entry under animations and none under skins. (With such entries it is a string, the
  defect of C3, and the sum is a concatenation of strings.)
\<close>

theorem curID_sum:
  assumes "parseTemplateProject Number json = Inr (tp, templateMinID)"
  shows "(\<forall>maxId. templateMinID = Num maxId \<longrightarrow>
            main_curID reservedIDs templateMinID = Num (reservedIDs + maxId + 1))
     \<and> (size_opt (t_animations json) = 0 \<and> size_opt (t_skins json) = 0 \<longrightarrow>
            (\<exists>maxId. templateMinID = Num maxId))"
  using parseTemplateProject_Num [OF assms] by (simp add: main_curID_def)

text \<open>
  A template with the meshes \<open>{"5", "12", "foo"}\<close> and nothing else has the maximum id 12;
  with 5 reserved ids the build starts at 18.
\<close>

theorem curID_sum_example:
  "\<exists>tp. parseTemplateProject decimal
        (no_categories\<lparr>t_meshes := Some [bare ''5'', bare ''12'', bare ''foo'']\<rparr>) = Inr (tp, Num 12)
     \<and> main_curID 5 (Num 12) = Num 18"
proof -
  let ?json = "no_categories\<lparr>t_meshes := Some [bare ''5'', bare ''12'', bare ''foo'']\<rparr>"
  have "map_sum id snd (parseTemplateProject decimal ?json) = Inr (Num 12)"
    by (simp add: parseTemplateProject_def no_categories_def bare_def scan_opt_def
        maybeAddDefaultObj_def getMaxId_def decimal_def digit_val_def)
  then obtain tp where run: "parseTemplateProject decimal ?json = Inr (tp, Num 12)"
    by (cases "parseTemplateProject decimal ?json") auto
  have "main_curID 5 (Num 12) = Num (5 + 12 + 1)"
    using curID_sum [OF run, of 5] by blast
  then show ?thesis using run by simp
qed

section \<open>Decimal strings\<close>

lemma digit_val_digit_char: "d < 10 \<Longrightarrow> digit_val (digit_char d) = Some d"
proof -
  assume "d < 10"
  then have "d = 0 \<or> d = 1 \<or> d = 2 \<or> d = 3 \<or> d = 4 \<or> d = 5 \<or> d = 6 \<or> d = 7 \<or> d = 8 \<or> d = 9"
    by arith
  then show ?thesis
    by (elim disjE) (simp_all add: digit_val_def digit_char_def)
qed

lemma decimal_from_append:
  "decimal_from acc (xs @ ys) =
     (case decimal_from acc xs of None \<Rightarrow> None | Some a \<Rightarrow> decimal_from a ys)"
  by (induction xs arbitrary: acc) (auto split: option.splits)

lemma decimal_from_toString: "decimal_from 0 (toString n) = Some n"
proof (induction n rule: toString.induct)
  case (1 n)
  show ?case
  proof (cases "n < 10")
    case True
    then show ?thesis by (simp add: toString.simps [of n] digit_val_digit_char)
  next
    case False
    have "toString n = toString (n div 10) @ [digit_char (n mod 10)]"
      using False by (subst toString.simps) simp
    then show ?thesis
      using 1 [OF False] by (simp add: decimal_from_append digit_val_digit_char)
  qed
qed

lemma toString_inj: "toString a = toString b \<Longrightarrow> a = b"
  by (metis decimal_from_toString option.inject)

lemma toString_eq_iff [simp]: "toString a = toString b \<longleftrightarrow> a = b"
  using toString_inj by blast

section \<open>Textures\<close>

lemma textures_loop_frame:
  "textures_loop file ts (m, i, S, c) = (m', i', S', c') \<Longrightarrow>
     i \<le> i' \<and> (\<forall>key. (\<forall>k. i \<le> k \<and> k < i' \<longrightarrow> key \<noteq> toString k) \<longrightarrow> m' key = m key)"
proof (induction ts arbitrary: m i S c)
  case Nil
  then show ?case by simp
next
  case (Cons x xs)
  show ?case
  proof (cases "x \<in> S")
    case True
    then show ?thesis using Cons.IH Cons.prems by simp
  next
    case False
    then have "textures_loop file xs
        (m(toString i \<mapsto> Linked (''texture_'' @ toString c) file), Suc i, insert x S, Suc c)
        = (m', i', S', c')"
      using Cons.prems by simp
    from Cons.IH [OF this] show ?thesis
      by (auto simp: Suc_le_eq)
  qed
qed

lemma textures_loop_count:
  "finite S \<Longrightarrow> textures_loop file ts (m, i, S, c) = (m', i', S', c') \<Longrightarrow>
     i' = i + card (set ts - S) \<and> S' = S \<union> set ts \<and> c' = c + length ts"
proof (induction ts arbitrary: m i S c)
  case Nil
  then show ?case by simp
next
  case (Cons x xs)
  show ?case
  proof (cases "x \<in> S")
    case True
    then have eq: "textures_loop file xs (m, i, S, Suc c) = (m', i', S', c')"
      using Cons.prems by simp
    have "set (x # xs) - S = set xs - S" using True by auto
    then show ?thesis using Cons.IH [OF Cons.prems(1) eq] True by auto
  next
    case False
    then have eq: "textures_loop file xs
        (m(toString i \<mapsto> Linked (''texture_'' @ toString c) file), Suc i, insert x S, Suc c)
        = (m', i', S', c')"
      using Cons.prems by simp
    have fin: "finite (insert x S)" using Cons.prems(1) by simp
    have "set (x # xs) - S = insert x (set xs - insert x S)" using False by auto
    moreover have "x \<notin> set xs - insert x S" by simp
    ultimately have "card (set (x # xs) - S) = Suc (card (set xs - insert x S))"
      by (simp add: card_insert_if)
    then show ?thesis using Cons.IH [OF fin eq] by auto
  qed
qed

lemma textures_loop_entry:
  "finite S \<Longrightarrow> textures_loop file ts (m, i, S, c) = (m', i', S', c') \<Longrightarrow>
     j < length ts \<Longrightarrow> ts ! j \<notin> S \<Longrightarrow> ts ! j \<notin> set (take j ts) \<Longrightarrow>
     m' (toString (i + card (set (take j ts) - S))) = Some (Linked (''texture_'' @ toString (c + j)) file)"
proof (induction ts arbitrary: m i S c j)
  case Nil
  then show ?case by simp
next
  case (Cons x xs)
  show ?case
  proof (cases j)
    case 0
    then have xS: "x \<notin> S" using Cons.prems by simp
    then have eq: "textures_loop file xs
        (m(toString i \<mapsto> Linked (''texture_'' @ toString c) file), Suc i, insert x S, Suc c)
        = (m', i', S', c')"
      using Cons.prems by simp
    have "\<forall>k. Suc i \<le> k \<and> k < i' \<longrightarrow> toString i \<noteq> toString k"
      by simp
    then have "m' (toString i) = (m(toString i \<mapsto> Linked (''texture_'' @ toString c) file)) (toString i)"
      using textures_loop_frame [OF eq] by blast
    then show ?thesis using 0 by simp
  next
    case (Suc j')
    have j': "j' < length xs" "xs ! j' \<notin> S" "xs ! j' \<noteq> x" "xs ! j' \<notin> set (take j' xs)"
      using Cons.prems Suc by auto
    show ?thesis
    proof (cases "x \<in> S")
      case True
      then have eq: "textures_loop file xs (m, i, S, Suc c) = (m', i', S', c')"
        using Cons.prems by simp
      have "set (take j (x # xs)) - S = set (take j' xs) - S" using True Suc by auto
      then show ?thesis
        using Cons.IH [OF Cons.prems(1) eq j'(1) j'(2) j'(4)] Suc by simp
    next
      case False
      then have eq: "textures_loop file xs
          (m(toString i \<mapsto> Linked (''texture_'' @ toString c) file), Suc i, insert x S, Suc c)
          = (m', i', S', c')"
        using Cons.prems by simp
      have fin: "finite (insert x S)" using Cons.prems(1) by simp
      have nin: "xs ! j' \<notin> insert x S" using j' by simp
      have "set (take j (x # xs)) - S = insert x (set (take j' xs) - insert x S)"
        using False Suc by auto
      moreover have "x \<notin> set (take j' xs) - insert x S" by simp
      ultimately have "card (set (take j (x # xs)) - S) = Suc (card (set (take j' xs) - insert x S))"
        by (simp add: card_insert_if)
      then show ?thesis
        using Cons.IH [OF fin eq j'(1) nin j'(4)] Suc by simp
    qed
  qed
qed

text \<open>
  C5. Textures are deduplicated by source: one id is allocated per distinct source, to
  the first entry with that source, in the order of the list; the entry allocated at
  position \<open>j\<close> of the list is named \<open>texture_j\<close>, since the counter of names advances at
  every entry; no other key of the category changes.
\<close>

theorem textures_dedup:
  "snd (gen_textures file (Some ts) (m, i)) = i + card (set ts)
   \<and> (\<forall>j<length ts. ts ! j \<notin> set (take j ts) \<longrightarrow>
         fst (gen_textures file (Some ts) (m, i)) (toString (i + card (set (take j ts))))
           = Some (Linked (''texture_'' @ toString j) file))
   \<and> (\<forall>key. key \<notin> toString ` {i..<i + card (set ts)} \<longrightarrow>
         fst (gen_textures file (Some ts) (m, i)) key = m key)"
proof -
  obtain m' i' S' c' where eq: "textures_loop file ts (m, i, {}, 0) = (m', i', S', c')"
    by (metis prod_cases4)
  have g: "gen_textures file (Some ts) (m, i) = (m', i')"
    by (simp add: gen_textures_def eq)
  have cnt: "i' = i + card (set ts)"
    using textures_loop_count [OF _ eq] by simp
  have ent: "\<forall>j<length ts. ts ! j \<notin> set (take j ts) \<longrightarrow>
         m' (toString (i + card (set (take j ts)))) = Some (Linked (''texture_'' @ toString j) file)"
    using textures_loop_entry [OF _ eq] by simp
  have frame: "\<forall>key. key \<notin> toString ` {i..<i + card (set ts)} \<longrightarrow> m' key = m key"
  proof (intro allI impI)
    fix key
    assume "key \<notin> toString ` {i..<i + card (set ts)}"
    then have "\<forall>k. i \<le> k \<and> k < i' \<longrightarrow> key \<noteq> toString k"
      unfolding cnt by (metis atLeastLessThan_iff imageI)
    then show "m' key = m key"
      using textures_loop_frame [OF eq] by blast
  qed
  show ?thesis using g cnt ent frame by simp
qed

text \<open>
  The textures \<open>[{source:0},{source:0},{source:1}]\<close> starting at id 29 take two ids: 29
  for the first two entries, named \<open>texture_0\<close>, and 30 for the third, named \<open>texture_2\<close>.
\<close>

theorem textures_dedup_example:
  "snd (gen_textures ''f'' (Some [Some 0, Some 0, Some 1]) (Map.empty, 29)) = 31
   \<and> fst (gen_textures ''f'' (Some [Some 0, Some 0, Some 1]) (Map.empty, 29)) ''29''
       = Some (Linked ''texture_0'' ''f'')
   \<and> fst (gen_textures ''f'' (Some [Some 0, Some 0, Some 1]) (Map.empty, 29)) ''30''
       = Some (Linked ''texture_2'' ''f'')
   \<and> fst (gen_textures ''f'' (Some [Some 0, Some 0, Some 1]) (Map.empty, 29)) ''31'' = None"
proof -
  let ?ts = "[Some 0, Some 0, Some (1::nat)]"
  let ?r = "gen_textures ''f'' (Some ?ts) (Map.empty, 29)"
  note t = textures_dedup [of "''f''" ?ts Map.empty 29]
  have s29: "toString 29 = ''29''" and s30: "toString 30 = ''30''" and s31: "toString 31 = ''31''"
    and s0: "toString 0 = ''0''" and s2: "toString 2 = ''2''"
    by (simp_all add: toString.simps digit_char_def)
  have c: "card (set ?ts) = 2" by simp
  have a: "snd ?r = 31" using t c by simp
  have "(0::nat) < length ?ts \<and> ?ts ! 0 \<notin> set (take 0 ?ts)" by simp
  then have "fst ?r (toString (29 + card (set (take 0 ?ts)))) = Some (Linked (''texture_'' @ toString 0) ''f'')"
    using t by blast
  then have b: "fst ?r ''29'' = Some (Linked ''texture_0'' ''f'')"
    using s29 s0 by simp
  have "(2::nat) < length ?ts \<and> ?ts ! 2 \<notin> set (take 2 ?ts)" by simp
  then have "fst ?r (toString (29 + card (set (take 2 ?ts)))) = Some (Linked (''texture_'' @ toString 2) ''f'')"
    using t by blast
  moreover have "card (set (take 2 ?ts)) = 1" by simp
  ultimately have d: "fst ?r ''30'' = Some (Linked ''texture_2'' ''f'')"
    using s30 s2 by simp
  have "''31'' \<notin> toString ` {29..<29 + card (set ?ts)}"
  proof
    assume "''31'' \<in> toString ` {29..<29 + card (set ?ts)}"
    then obtain k where "toString k = toString 31" "k < 31" using c s31 by auto
    then show False by simp
  qed
  then have "fst ?r ''31'' = Map.empty ''31''" using t by blast
  then show ?thesis using a b d by simp
qed

section \<open>The loops over the resource categories\<close>

















section \<open>The traversal\<close>





lemma shape_eq_children: "shape_eq h h' \<Longrightarrow> children (h' r) = children (h r)"
  by (simp add: shape_eq_def)





section \<open>The order of allocation\<close>








section \<open>Absent lists\<close>

lemma reverse_no_children: "children (h this) = [] \<Longrightarrow> reverse this h = Some h"
  by (simp add: reverse_def reverse_from.simps)

lemma build_tree_no_nodes: "build_tree skMap jIdxs [] = Inr new_heap"
  by (simp add: build_tree_def js_sort_def)

lemma gen_objects_no_nodes:
  "0 < stack \<Longrightarrow> gen_objects stack file (Some []) skMap jIdxs objs sj i
     = gen_objects stack file None skMap jIdxs objs sj i"
proof -
  assume "0 < stack"
  then obtain k where k: "stack = Suc k" by (cases stack) auto
  have c: "children (new_heap Tree) = []" by (simp add: new_heap_def new_Node_def)
  have r: "reverse Tree new_heap = Some new_heap"
    using c by (rule reverse_no_children)
  show ?thesis
    by (simp add: gen_objects_def build_tree_no_nodes r k c)
qed

text \<open>
  C10, as the specification states it: with a list absent, the output mapping of its
  category is left empty. When the resources of the template are kept, the mapping holds
  the entries of the template: here, with no \<open>meshes\<close> in the input, the built-in mesh
  \<open>p0\<close>.
\<close>

theorem absent_meshes_not_empty:
  "(case legacyGenerateProject 1 ''f'' 1 29 plane_template [1, 0, 0] True no_lists of
      Some (Inr (p, arrays, idf)) \<Rightarrow> meshes p ''p0'' | _ \<Rightarrow> None)
     = Some (Template \<lparr>tlink = LinkObj ''PrimitivePlane'' ''default'', other = []\<rparr>)"
  by (simp add: legacyGenerateProject_def Let_def no_lists_def plane_template_def no_template_def
      generateBaseProject_def kept_def gen_named_def gen_textures_def gen_meshes_def
      gen_skins_def gen_objects_def)

text \<open>
  C10, amended: an absent list behaves exactly like an empty one (the results of the
  two runs are equal; for \<open>nodes\<close>, as soon as the call of \<open>dfs\<close> on the root fits the
  stack). And with every list absent the generation completes without error, takes no
  id, and leaves every mapping as the base project seeds it: empty, or the entries of
  the template where those are kept.
\<close>

theorem absent_as_empty:
  "0 < stack \<Longrightarrow>
     legacyGenerateProject stack file ratio curID tp ver keep (json\<lparr>j_nodes := None\<rparr>)
       = legacyGenerateProject stack file ratio curID tp ver keep (json\<lparr>j_nodes := Some []\<rparr>)
   \<and> legacyGenerateProject stack file ratio curID tp ver keep (json\<lparr>j_images := None\<rparr>)
       = legacyGenerateProject stack file ratio curID tp ver keep (json\<lparr>j_images := Some []\<rparr>)
   \<and> legacyGenerateProject stack file ratio curID tp ver keep (json\<lparr>j_textures := None\<rparr>)
       = legacyGenerateProject stack file ratio curID tp ver keep (json\<lparr>j_textures := Some []\<rparr>)
   \<and> legacyGenerateProject stack file ratio curID tp ver keep (json\<lparr>j_materials := None\<rparr>)
       = legacyGenerateProject stack file ratio curID tp ver keep (json\<lparr>j_materials := Some []\<rparr>)
   \<and> legacyGenerateProject stack file ratio curID tp ver keep (json\<lparr>j_meshes := None\<rparr>)
       = legacyGenerateProject stack file ratio curID tp ver keep (json\<lparr>j_meshes := Some []\<rparr>)
   \<and> legacyGenerateProject stack file ratio curID tp ver keep (json\<lparr>j_skins := None\<rparr>)
       = legacyGenerateProject stack file ratio curID tp ver keep (json\<lparr>j_skins := Some []\<rparr>)
   \<and> legacyGenerateProject stack file ratio curID tp ver keep (json\<lparr>j_animations := None\<rparr>)
       = legacyGenerateProject stack file ratio curID tp ver keep (json\<lparr>j_animations := Some []\<rparr>)
   \<and> legacyGenerateProject stack file ratio curID tp ver keep no_lists
       = Some (Inr ((generateBaseProject tp ver keep)\<lparr>files := [file]\<rparr>, Map.empty, curID))"
proof -
  assume st: "0 < stack"
  have n: "legacyGenerateProject stack file ratio curID tp ver keep (json\<lparr>j_nodes := None\<rparr>)
       = legacyGenerateProject stack file ratio curID tp ver keep (json\<lparr>j_nodes := Some []\<rparr>)"
    by (simp add: legacyGenerateProject_def Let_def gen_objects_no_nodes [OF st]
        cong: option.case_cong sum.case_cong)
  have i: "legacyGenerateProject stack file ratio curID tp ver keep (json\<lparr>j_images := None\<rparr>)
       = legacyGenerateProject stack file ratio curID tp ver keep (json\<lparr>j_images := Some []\<rparr>)"
    by (simp add: legacyGenerateProject_def Let_def gen_named_def cong: option.case_cong sum.case_cong)
  have t: "legacyGenerateProject stack file ratio curID tp ver keep (json\<lparr>j_textures := None\<rparr>)
       = legacyGenerateProject stack file ratio curID tp ver keep (json\<lparr>j_textures := Some []\<rparr>)"
    by (simp add: legacyGenerateProject_def Let_def gen_textures_def cong: option.case_cong sum.case_cong)
  have m: "legacyGenerateProject stack file ratio curID tp ver keep (json\<lparr>j_materials := None\<rparr>)
       = legacyGenerateProject stack file ratio curID tp ver keep (json\<lparr>j_materials := Some []\<rparr>)"
    by (simp add: legacyGenerateProject_def Let_def gen_named_def cong: option.case_cong sum.case_cong)
  have e: "legacyGenerateProject stack file ratio curID tp ver keep (json\<lparr>j_meshes := None\<rparr>)
       = legacyGenerateProject stack file ratio curID tp ver keep (json\<lparr>j_meshes := Some []\<rparr>)"
    by (simp add: legacyGenerateProject_def Let_def gen_meshes_def cong: option.case_cong sum.case_cong)
  have s: "legacyGenerateProject stack file ratio curID tp ver keep (json\<lparr>j_skins := None\<rparr>)
       = legacyGenerateProject stack file ratio curID tp ver keep (json\<lparr>j_skins := Some []\<rparr>)"
    by (simp add: legacyGenerateProject_def Let_def gen_skins_def cong: option.case_cong sum.case_cong)
  have a: "legacyGenerateProject stack file ratio curID tp ver keep (json\<lparr>j_animations := None\<rparr>)
       = legacyGenerateProject stack file ratio curID tp ver keep (json\<lparr>j_animations := Some []\<rparr>)"
    by (simp add: legacyGenerateProject_def Let_def gen_named_def cong: option.case_cong sum.case_cong)
  have z: "legacyGenerateProject stack file ratio curID tp ver keep no_lists
       = Some (Inr ((generateBaseProject tp ver keep)\<lparr>files := [file]\<rparr>, Map.empty, curID))"
    by (simp add: legacyGenerateProject_def Let_def no_lists_def gen_named_def gen_textures_def
        gen_meshes_def gen_skins_def gen_objects_def generateBaseProject_def)
  show ?thesis using n i t m e s a z by simp
qed

text \<open>
  A run with every list absent from id 29 on: the same as with an empty list of nodes,
  no error, next free id 29.
\<close>

theorem absent_as_empty_example:
  "legacyGenerateProject 1 ''f'' 1 29 no_template [1, 0, 0] False (no_lists\<lparr>j_nodes := Some []\<rparr>)
     = Some (Inr ((generateBaseProject no_template [1, 0, 0] False)\<lparr>files := [''f'']\<rparr>, Map.empty, 29))"
proof -
  have "(0::nat) < 1" by simp
  note t = absent_as_empty [OF this, of "''f''" 1 29 no_template "[1, 0, 0]" False no_lists]
  note first = t [THEN conjunct1]
  note last = t [THEN conjunct2, THEN conjunct2, THEN conjunct2, THEN conjunct2, THEN conjunct2,
      THEN conjunct2, THEN conjunct2]
  have e: "no_lists\<lparr>j_nodes := None\<rparr> = no_lists" by (simp add: no_lists_def)
  show ?thesis using first last unfolding e by (rule trans [OF sym])
qed

section \<open>The transform of the root\<close>

lemma set_parents_apply:
  "set_parents par cs h r = (h r)\<lparr>parent := if r \<in> set cs then Some par else parent (h r)\<rparr>"
proof -
  define F where "F = (\<lambda>c (g::heap). g(c := (g c)\<lparr>parent := Some par\<rparr>))"
  have "fold F cs h r = (h r)\<lparr>parent := if r \<in> set cs then Some par else parent (h r)\<rparr>"
  proof (induction cs arbitrary: h)
    case Nil
    then show ?case by simp
  next
    case (Cons c cs)
    have "fold F (c # cs) h r = fold F cs (F c h) r" by simp
    also have "\<dots> = (F c h r)\<lparr>parent := if r \<in> set cs then Some par else parent (F c h r)\<rparr>"
      by (rule Cons.IH)
    also have "\<dots> = (h r)\<lparr>parent := if r \<in> set (c # cs) then Some par else parent (h r)\<rparr>"
      by (simp add: F_def)
    finally show ?case .
  qed
  then show ?thesis by (simp add: set_parents_def F_def)
qed

lemma swap_pair_apply:
  "swap_pair first second h r =
     (h r)\<lparr>parent := (if r \<in> set (children (h second)) then Some first
                     else if r \<in> set (children (h first)) then Some second
                     else parent (h r)),
            children := (if r = second then children (h first)
                         else if r = first then children (h second)
                         else children (h r))\<rparr>"
  by (simp add: swap_pair_def Let_def set_parents_apply)

lemma swap_pair_children:
  "children (swap_pair first second h r) =
     (if r = second then children (h first)
      else if r = first then children (h second) else children (h r))"
  by (simp add: swap_pair_apply)

lemma swap_pair_parent:
  "parent (swap_pair first second h r) =
     (if r \<in> set (children (h second)) then Some first
      else if r \<in> set (children (h first)) then Some second
      else parent (h r))"
  by (simp add: swap_pair_apply)

lemma swap_pair_fields:
  "name (swap_pair first second h r) = name (h r)"
  "path_memo (swap_pair first second h r) = path_memo (h r)"
  "nid (swap_pair first second h r) = nid (h r)"
  "meshSkin (swap_pair first second h r) = meshSkin (h r)"
  "skin (swap_pair first second h r) = skin (h r)"
  by (simp_all add: swap_pair_apply)

lemma reversed_start: "reversed h cs 0 h"
  by (simp add: reversed_def)

lemma reversed_step:
  assumes inv: "reversed h cs i g" and d: "distinct cs" and dj: "disjoint_children h cs"
    and i: "i < length cs div 2"
  shows "reversed h cs (Suc i) (swap_pair (cs ! i) (cs ! (length cs - i - 1)) g)"
proof -
  define n where "n = length cs"
  define f where "f = cs ! i"
  define s where "s = cs ! (n - i - 1)"
  have il: "i < n" "n - i - 1 < n" "i \<noteq> n - i - 1" "i < n - i - 1"
    using i unfolding n_def by auto
  have idx: "\<And>j. j < n \<Longrightarrow> (cs ! j = f) = (j = i)" "\<And>j. j < n \<Longrightarrow> (cs ! j = s) = (j = n - i - 1)"
    using d il unfolding f_def s_def n_def by (auto simp: nth_eq_iff_index_eq)
  have fs: "f \<in> set cs" "s \<in> set cs"
    using il unfolding f_def s_def n_def by auto
  have inv1: "\<And>j. j < n \<Longrightarrow> children (g (cs ! j)) =
        (if j < i \<or> n - i \<le> j then children (h (cs ! (n - 1 - j))) else children (h (cs ! j)))"
    and inv2: "\<And>r. r \<notin> set cs \<Longrightarrow> children (g r) = children (h r)"
    and inv3: "\<And>j x. j < n \<Longrightarrow> j < i \<or> n - i \<le> j \<Longrightarrow> x \<in> set (children (h (cs ! j))) \<Longrightarrow>
        parent (g x) = Some (cs ! (n - 1 - j))"
    and inv4: "\<And>x. (\<forall>j<n. (j < i \<or> n - i \<le> j) \<longrightarrow> x \<notin> set (children (h (cs ! j)))) \<Longrightarrow>
        parent (g x) = parent (h x)"
    and inv5: "\<And>r. name (g r) = name (h r) \<and> path_memo (g r) = path_memo (h r) \<and> nid (g r) = nid (h r)
        \<and> meshSkin (g r) = meshSkin (h r) \<and> skin (g r) = skin (h r)"
    using inv unfolding reversed_def n_def by blast+
  have ar: "\<not> n - i \<le> i" "\<not> n - i - 1 < i" "\<not> n - i \<le> n - i - 1"
    using i unfolding n_def by auto
  have cf: "children (g f) = children (h f)"
    using inv1 [OF il(1)] ar unfolding f_def by simp
  have cs': "children (g s) = children (h s)"
    using inv1 [OF il(2)] ar unfolding s_def by simp
  have dis: "\<And>a b x. a < n \<Longrightarrow> b < n \<Longrightarrow> a \<noteq> b \<Longrightarrow> x \<in> set (children (h (cs ! a))) \<Longrightarrow>
        x \<notin> set (children (h (cs ! b)))"
  proof -
    fix a b x assume a: "a < n" "b < n" "a \<noteq> b" "x \<in> set (children (h (cs ! a)))"
    have "cs ! a \<noteq> cs ! b" using a d unfolding n_def by (simp add: nth_eq_iff_index_eq)
    moreover have "cs ! a \<in> set cs" "cs ! b \<in> set cs" using a unfolding n_def by auto
    ultimately have "set (children (h (cs ! a))) \<inter> set (children (h (cs ! b))) = {}"
      using dj unfolding disjoint_children_def by blast
    then show "x \<notin> set (children (h (cs ! b)))" using a(4) by blast
  qed
  let ?g' = "swap_pair f s g"
  have c1: "\<forall>j<n. children (?g' (cs ! j)) =
        (if j < Suc i \<or> n - Suc i \<le> j then children (h (cs ! (n - 1 - j)))
         else children (h (cs ! j)))"
  proof (intro allI impI)
    fix j assume j: "j < n"
    consider "j = i" | "j = n - i - 1" | "j \<noteq> i" "j \<noteq> n - i - 1" by blast
    then show "children (?g' (cs ! j)) =
        (if j < Suc i \<or> n - Suc i \<le> j then children (h (cs ! (n - 1 - j)))
         else children (h (cs ! j)))"
    proof cases
      case 1
      then have "children (?g' (cs ! j)) = children (h s)"
        using idx j il cs' by (simp add: swap_pair_children)
      then show ?thesis using 1 unfolding s_def by simp
    next
      case 2
      then have "children (?g' (cs ! j)) = children (h f)"
        using idx j il cf by (simp add: swap_pair_children)
      moreover have "n - 1 - j = i" using 2 il by simp
      moreover have "n - Suc i \<le> j" using 2 by simp
      ultimately show ?thesis unfolding f_def by simp
    next
      case 3
      then have "children (?g' (cs ! j)) = children (g (cs ! j))"
        using idx j by (simp add: swap_pair_children)
      moreover have "(j < Suc i \<or> n - Suc i \<le> j) = (j < i \<or> n - i \<le> j)"
        using 3 by auto
      ultimately show ?thesis using inv1 [OF j] by simp
    qed
  qed
  have c2: "\<forall>r. r \<notin> set cs \<longrightarrow> children (?g' r) = children (h r)"
    using fs inv2 by (auto simp: swap_pair_children)
  have c3: "\<forall>j<n. (j < Suc i \<or> n - Suc i \<le> j) \<longrightarrow>
        (\<forall>x\<in>set (children (h (cs ! j))). parent (?g' x) = Some (cs ! (n - 1 - j)))"
  proof (intro allI impI ballI)
    fix j x assume j: "j < n" and c: "j < Suc i \<or> n - Suc i \<le> j"
      and x: "x \<in> set (children (h (cs ! j)))"
    consider "j = i" | "j = n - i - 1" | "j \<noteq> i" "j \<noteq> n - i - 1" by blast
    then show "parent (?g' x) = Some (cs ! (n - 1 - j))"
    proof cases
      case 1
      have "x \<notin> set (children (h (cs ! (n - i - 1))))"
        using dis [OF il(1) il(2) il(3)] x 1 by blast
      then have "parent (?g' x) = Some s"
        using x 1 cf cs' unfolding swap_pair_parent f_def s_def by simp
      then show ?thesis using 1 unfolding s_def by simp
    next
      case 2
      then have "parent (?g' x) = Some f"
        using x cs' unfolding swap_pair_parent s_def by simp
      moreover have "n - 1 - j = i" using 2 il by simp
      ultimately show ?thesis unfolding f_def by simp
    next
      case 3
      then have c': "j < i \<or> n - i \<le> j" using c by auto
      have "x \<notin> set (children (h (cs ! i)))" "x \<notin> set (children (h (cs ! (n - i - 1))))"
        using dis [OF j il(1) 3(1) x] dis [OF j il(2) 3(2) x] by auto
      then have "parent (?g' x) = parent (g x)"
        using cf cs' unfolding swap_pair_parent f_def s_def by simp
      then show ?thesis using inv3 [OF j c' x] by simp
    qed
  qed
  have c4: "\<forall>x. (\<forall>j<n. (j < Suc i \<or> n - Suc i \<le> j) \<longrightarrow> x \<notin> set (children (h (cs ! j))))
        \<longrightarrow> parent (?g' x) = parent (h x)"
  proof (intro allI impI)
    fix x assume a: "\<forall>j<n. (j < Suc i \<or> n - Suc i \<le> j) \<longrightarrow> x \<notin> set (children (h (cs ! j)))"
    have "x \<notin> set (children (h (cs ! i)))" using a il by simp
    moreover have "x \<notin> set (children (h (cs ! (n - i - 1))))" using a il by simp
    ultimately have "parent (?g' x) = parent (g x)"
      using cf cs' unfolding swap_pair_parent f_def s_def by simp
    moreover have "\<forall>j<n. (j < i \<or> n - i \<le> j) \<longrightarrow> x \<notin> set (children (h (cs ! j)))"
      using a by auto
    ultimately show "parent (?g' x) = parent (h x)" using inv4 by simp
  qed
  have c5: "\<forall>r. name (?g' r) = name (h r) \<and> path_memo (?g' r) = path_memo (h r)
        \<and> nid (?g' r) = nid (h r) \<and> meshSkin (?g' r) = meshSkin (h r) \<and> skin (?g' r) = skin (h r)"
    using inv5 by (simp add: swap_pair_fields)
  show ?thesis
    unfolding reversed_def using c1 c2 c3 c4 c5 unfolding n_def f_def s_def by blast
qed

lemma reverse_from_reversed:
  assumes cs: "children (h this) = cs" and d: "distinct cs" and t: "this \<notin> set cs"
    and dj: "disjoint_children h cs"
  shows "reversed h cs i g \<Longrightarrow> i \<le> length cs div 2 \<Longrightarrow>
     \<exists>h'. reverse_from i this g = Some h' \<and> reversed h cs (length cs div 2) h'"
proof (induction "length cs div 2 - i" arbitrary: i g)
  case 0
  then have i: "i = length cs div 2" by simp
  have c: "children (g this) = cs"
    using "0.prems"(1) t cs unfolding reversed_def by simp
  have "reverse_from i this g = Some g"
    by (subst reverse_from.simps) (simp add: c i)
  then show ?case using "0.prems"(1) i by simp
next
  case (Suc k)
  then have i: "i < length cs div 2" by simp
  have c: "children (g this) = cs"
    using Suc.prems(1) t cs unfolding reversed_def by simp
  let ?g' = "swap_pair (cs ! i) (cs ! (length cs - i - 1)) g"
  have st: "reversed h cs (Suc i) ?g'"
    using Suc.prems(1) d dj i by (rule reversed_step)
  have k: "k = length cs div 2 - Suc i" using Suc.hyps(2) by simp
  have le: "Suc i \<le> length cs div 2" using i by simp
  obtain h' where h': "reverse_from (Suc i) this ?g' = Some h'" "reversed h cs (length cs div 2) h'"
    using Suc.hyps(1) [OF k st le] by blast
  have "reverse_from i this g = reverse_from (Suc i) this ?g'"
    by (subst reverse_from.simps) (simp add: c i)
  then show ?case using h' by simp
qed

lemma reverse_result:
  assumes cs: "children (h this) = cs" and d: "distinct cs" and t: "this \<notin> set cs"
    and dj: "disjoint_children h cs"
    and par: "\<forall>c\<in>set cs. \<forall>x\<in>set (children (h c)). parent (h x) = Some c"
  shows "\<exists>h'. reverse this h = Some h'
     \<and> children (h' this) = cs
     \<and> (\<forall>j<length cs. children (h' (cs ! j)) = children (h (cs ! (length cs - 1 - j))))
     \<and> (\<forall>j<length cs. \<forall>x\<in>set (children (h' (cs ! j))). parent (h' x) = Some (cs ! j))
     \<and> (\<forall>r. r \<notin> set cs \<longrightarrow> children (h' r) = children (h r))
     \<and> (\<forall>x. (\<forall>c\<in>set cs. x \<notin> set (children (h c))) \<longrightarrow> parent (h' x) = parent (h x))
     \<and> (\<forall>r. name (h' r) = name (h r) \<and> path_memo (h' r) = path_memo (h r) \<and> nid (h' r) = nid (h r)
          \<and> meshSkin (h' r) = meshSkin (h r) \<and> skin (h' r) = skin (h r))"
proof -
  define n where "n = length cs"
  define m where "m = n div 2"
  obtain h' where run: "reverse_from 0 this h = Some h'" and inv: "reversed h cs m h'"
    using reverse_from_reversed [OF cs d t dj reversed_start] unfolding m_def n_def by auto
  have inv1: "\<And>j. j < n \<Longrightarrow> children (h' (cs ! j)) =
        (if j < m \<or> n - m \<le> j then children (h (cs ! (n - 1 - j))) else children (h (cs ! j)))"
    and inv2: "\<And>r. r \<notin> set cs \<Longrightarrow> children (h' r) = children (h r)"
    and inv3: "\<And>j x. j < n \<Longrightarrow> j < m \<or> n - m \<le> j \<Longrightarrow> x \<in> set (children (h (cs ! j))) \<Longrightarrow>
        parent (h' x) = Some (cs ! (n - 1 - j))"
    and inv4: "\<And>x. (\<forall>j<n. (j < m \<or> n - m \<le> j) \<longrightarrow> x \<notin> set (children (h (cs ! j)))) \<Longrightarrow>
        parent (h' x) = parent (h x)"
    and inv5: "\<forall>r. name (h' r) = name (h r) \<and> path_memo (h' r) = path_memo (h r) \<and> nid (h' r) = nid (h r)
        \<and> meshSkin (h' r) = meshSkin (h r) \<and> skin (h' r) = skin (h r)"
    using inv unfolding reversed_def n_def by blast+
  have mid: "\<And>j. j < n \<Longrightarrow> \<not> (j < m \<or> n - m \<le> j) \<Longrightarrow> n - 1 - j = j"
    unfolding m_def by auto
  have c1: "\<forall>j<n. children (h' (cs ! j)) = children (h (cs ! (n - 1 - j)))"
  proof (intro allI impI)
    fix j assume j: "j < n"
    show "children (h' (cs ! j)) = children (h (cs ! (n - 1 - j)))"
    proof (cases "j < m \<or> n - m \<le> j")
      case True
      then show ?thesis using inv1 [OF j] by simp
    next
      case False
      then show ?thesis using inv1 [OF j] mid [OF j False] by simp
    qed
  qed
  have par': "\<And>j x. j < n \<Longrightarrow> x \<in> set (children (h (cs ! j))) \<Longrightarrow> parent (h' x) = Some (cs ! (n - 1 - j))"
  proof -
    fix j x assume j: "j < n" and x: "x \<in> set (children (h (cs ! j)))"
    show "parent (h' x) = Some (cs ! (n - 1 - j))"
    proof (cases "j < m \<or> n - m \<le> j")
      case True
      then show ?thesis using inv3 [OF j True x] by simp
    next
      case False
      have "\<forall>b<n. (b < m \<or> n - m \<le> b) \<longrightarrow> x \<notin> set (children (h (cs ! b)))"
      proof (intro allI impI)
        fix b assume b: "b < n" "b < m \<or> n - m \<le> b"
        then have "b \<noteq> j" using False by auto
        then have "cs ! j \<noteq> cs ! b" using d j b unfolding n_def by (simp add: nth_eq_iff_index_eq)
        moreover have "cs ! j \<in> set cs" "cs ! b \<in> set cs" using j b unfolding n_def by auto
        ultimately have "set (children (h (cs ! j))) \<inter> set (children (h (cs ! b))) = {}"
          using dj unfolding disjoint_children_def by blast
        then show "x \<notin> set (children (h (cs ! b)))" using x by blast
      qed
      then have "parent (h' x) = parent (h x)" by (rule inv4)
      moreover have "parent (h x) = Some (cs ! j)" using par j x unfolding n_def by simp
      ultimately show ?thesis using mid [OF j False] by simp
    qed
  qed
  have c2: "\<forall>j<n. \<forall>x\<in>set (children (h' (cs ! j))). parent (h' x) = Some (cs ! j)"
  proof (intro allI impI ballI)
    fix j x assume j: "j < n" and x: "x \<in> set (children (h' (cs ! j)))"
    have j': "n - 1 - j < n" using j by simp
    have "x \<in> set (children (h (cs ! (n - 1 - j))))" using x c1 j by simp
    from par' [OF j' this] show "parent (h' x) = Some (cs ! j)" using j by simp
  qed
  have c4: "\<forall>x. (\<forall>c\<in>set cs. x \<notin> set (children (h c))) \<longrightarrow> parent (h' x) = parent (h x)"
  proof (intro allI impI)
    fix x assume "\<forall>c\<in>set cs. x \<notin> set (children (h c))"
    then have "\<forall>j<n. (j < m \<or> n - m \<le> j) \<longrightarrow> x \<notin> set (children (h (cs ! j)))"
      unfolding n_def by simp
    then show "parent (h' x) = parent (h x)" by (rule inv4)
  qed
  have c0: "children (h' this) = cs" using inv2 [OF t] cs by simp
  show ?thesis
    using run c0 c1 c2 inv2 c4 inv5 unfolding reverse_def n_def by blast
qed

text \<open>
  C1, as the specification states it: the root children \<open>[A, B, C, D]\<close> become
  \<open>[D, C, B, A]\<close>. The loop of \<open>reverse\<close> never writes to the child list of the node it is
  called on: with A, B, C, D at the top and a1 under A, the root keeps \<open>[A, B, C, D]\<close>,
  A ends with the (empty) child list of D and D with the child list \<open>[a1]\<close> of A.
\<close>

theorem reverse_keeps_positions:
  "(case reverse Tree family_heap of
      Some h' \<Rightarrow> Some (children (h' Tree), children (h' (Flat 0)), children (h' (Flat 3)))
    | None \<Rightarrow> None)
     = Some ([Flat 0, Flat 1, Flat 2, Flat 3], [], [Flat 4])
   \<and> [Flat 0, Flat 1, Flat 2, Flat 3] \<noteq> [Flat 3, Flat 2, Flat 1, Flat 0]"
  by code_simp

section \<open>The order of the orphans\<close>

text \<open>
  C2. The orphans are attached to the root by ascending index. The code sorts them
  with \<open>sort()\<close> and no comparison function, that is as strings: of eleven nodes with no
  parent, node 10 is attached after node 1 and before node 2. (The list that is sorted
  is already in ascending order.)
\<close>

theorem orphans_sorted_as_strings:
  "(case build_tree Map.empty Map.empty (replicate 11 (node None None)) of
      Inr h \<Rightarrow> children (h Tree) | Inl e \<Rightarrow> [])
     = map Flat [0, 1, 10, 2, 3, 4, 5, 6, 7, 8, 9]"
  by code_simp

section \<open>Building the tree\<close>

lemma setParent_apply:
  "setParent this par h r =
     (h r)\<lparr>parent := (if r = this then Some par else parent (h r)),
            children := children (h r) @ (if r = par then [this] else [])\<rparr>"
  by (simp add: setParent_def Let_def)

lemma fold_setParent_apply:
  "fold (\<lambda>c g. setParent (Flat c) nd g) cs h r =
     (h r)\<lparr>parent := (if r \<in> Flat ` set cs then Some nd else parent (h r)),
            children := children (h r) @ (if r = nd then map Flat cs else [])\<rparr>"
proof (induction cs arbitrary: h)
  case Nil
  then show ?case by simp
next
  case (Cons c cs)
  have "fold (\<lambda>c g. setParent (Flat c) nd g) (c # cs) h r
      = fold (\<lambda>c g. setParent (Flat c) nd g) cs (setParent (Flat c) nd h) r"
    by simp
  also have "\<dots> = (setParent (Flat c) nd h r)\<lparr>
      parent := (if r \<in> Flat ` set cs then Some nd else parent (setParent (Flat c) nd h r)),
      children := children (setParent (Flat c) nd h r) @ (if r = nd then map Flat cs else [])\<rparr>"
    by (rule Cons.IH)
  also have "\<dots> = (h r)\<lparr>parent := (if r \<in> Flat ` set (c # cs) then Some nd else parent (h r)),
            children := children (h r) @ (if r = nd then map Flat (c # cs) else [])\<rparr>"
    by (auto simp: setParent_apply)
  finally show ?case .
qed

lemma children_loop_result:
  "\<forall>c\<in>set cs. c < nodeCount \<Longrightarrow>
     children_loop nodeCount nd cs (h, os) =
       Inr (fold (\<lambda>c g. setParent (Flat c) nd g) cs h, filter (\<lambda>x. x \<notin> set cs) os)"
proof (induction cs arbitrary: h os)
  case Nil
  then show ?case by simp
next
  case (Cons c cs)
  have "filter (\<lambda>x. x \<notin> set cs) (removeAll c os) = filter (\<lambda>x. x \<notin> set (c # cs)) os"
    by (induction os) auto
  then show ?case using Cons by simp
qed

lemma nodes_loop_step:
  assumes "\<forall>c\<in>set (kids nodeObj). c < nodeCount"
  shows "nodes_loop nodeCount skMap jIdxs (nodeObj # rest) idx (h, os) =
     nodes_loop nodeCount skMap jIdxs rest (Suc idx)
       (node_step skMap jIdxs nodeObj idx h, filter (\<lambda>x. x \<notin> set (kids nodeObj)) os)"
proof -
  define h1 where "h1 = (case n_name nodeObj of
                  None \<Rightarrow> h
                | Some nm \<Rightarrow> h(Flat idx := (h (Flat idx))\<lparr>name := Some nm\<rparr>))"
  have cl: "(case n_children nodeObj of
                 None \<Rightarrow> Inr (h1, os)
               | Some cs \<Rightarrow> children_loop nodeCount (Flat idx) cs (h1, os))
      = Inr (fold (\<lambda>c g. setParent (Flat c) (Flat idx) g) (kids nodeObj) h1,
             filter (\<lambda>x. x \<notin> set (kids nodeObj)) os)"
  proof (cases "n_children nodeObj")
    case None
    then show ?thesis by (simp add: kids_def)
  next
    case (Some cs)
    then have "\<forall>c\<in>set cs. c < nodeCount" using assms by (simp add: kids_def)
    then show ?thesis using Some by (simp add: kids_def children_loop_result)
  qed
  define h2 where "h2 = fold (\<lambda>c g. setParent (Flat c) (Flat idx) g) (kids nodeObj) h1"
  define h3 where "h3 = (case n_skin nodeObj of
                         None \<Rightarrow> h2
                       | Some sk \<Rightarrow>
                           h2(Flat idx := (h2 (Flat idx))\<lparr>meshSkin :=
                                (case skMap sk of None \<Rightarrow> Undefined | Some i \<Rightarrow> SkinId i)\<rparr>))"
  define h4 where "h4 = (case jIdxs idx of
                         None \<Rightarrow> h3
                       | Some sid \<Rightarrow> h3(Flat idx := (h3 (Flat idx))\<lparr>skin := Some sid\<rparr>))"
  have "h4 r = node_step skMap jIdxs nodeObj idx h r" for r
    unfolding h4_def h3_def h2_def h1_def node_step_def fold_setParent_apply
    by (auto split: option.splits)
  then have eq: "h4 = node_step skMap jIdxs nodeObj idx h" by (rule ext)
  show ?thesis
    unfolding nodes_loop.simps Let_def cl [unfolded h1_def] sum.case prod.case
      eq [unfolded h4_def h3_def h2_def h1_def]
    by (rule refl)
qed

lemma nodes_loop_result:
  "\<forall>n\<in>set ns. \<forall>c\<in>set (kids n). c < nodeCount \<Longrightarrow>
     nodes_loop nodeCount skMap jIdxs ns idx (h, os) =
       Inr (node_steps skMap jIdxs ns idx h, filter (\<lambda>x. \<forall>n\<in>set ns. x \<notin> set (kids n)) os)"
proof (induction ns arbitrary: idx h os)
  case Nil
  then show ?case by simp
next
  case (Cons nodeObj rest)
  have k: "\<forall>c\<in>set (kids nodeObj). c < nodeCount" using Cons.prems by simp
  have r: "\<forall>n\<in>set rest. \<forall>c\<in>set (kids n). c < nodeCount" using Cons.prems by simp
  have f: "filter (\<lambda>x. \<forall>n\<in>set rest. x \<notin> set (kids n)) (filter (\<lambda>x. x \<notin> set (kids nodeObj)) os)
      = filter (\<lambda>x. \<forall>n\<in>set (nodeObj # rest). x \<notin> set (kids n)) os"
    by (induction os) auto
  show ?case
    unfolding nodes_loop_step [OF k] Cons.IH [OF r] f by simp
qed

lemma build_tree_built: "in_range nodes \<Longrightarrow> build_tree skMap jIdxs nodes = Inr (built skMap jIdxs nodes)"
  unfolding in_range_def
  by (simp add: build_tree_def nodes_loop_result built_def orphans_of_def)

lemma node_steps_children:
  "children (node_steps skMap jIdxs ns idx h r) =
     children (h r) @ (case r of
                         Tree \<Rightarrow> []
                       | Flat n \<Rightarrow> if idx \<le> n \<and> n < idx + length ns
                                   then map Flat (kids (ns ! (n - idx))) else [])"
proof (induction ns arbitrary: idx h)
  case Nil
  then show ?case by (auto split: ref.splits)
next
  case (Cons x xs)
  show ?case
  proof (cases r)
    case Tree
    then show ?thesis using Cons.IH [of "Suc idx"] by (simp add: node_step_def)
  next
    case (Flat n)
    consider "n < idx" | "n = idx" | "idx < n" by linarith
    then show ?thesis
    proof cases
      case 1
      then show ?thesis using Flat Cons.IH [of "Suc idx"] by (simp add: node_step_def)
    next
      case 2
      then show ?thesis using Flat Cons.IH [of "Suc idx"] by (simp add: node_step_def)
    next
      case 3
      then have "(x # xs) ! (n - idx) = xs ! (n - Suc idx)" by (simp add: nth_Cons')
      then show ?thesis using 3 Flat Cons.IH [of "Suc idx"] by (auto simp: node_step_def)
    qed
  qed
qed

lemma node_steps_parent_unlisted:
  "\<forall>n\<in>set ns. r \<notin> Flat ` set (kids n) \<Longrightarrow> parent (node_steps skMap jIdxs ns idx h r) = parent (h r)"
proof (induction ns arbitrary: idx h)
  case Nil
  then show ?case by simp
next
  case (Cons x xs)
  then show ?case by (simp add: node_step_def)
qed

lemma node_steps_parent_listed:
  "\<exists>n\<in>set ns. c \<in> set (kids n) \<Longrightarrow>
     \<exists>j<length ns. c \<in> set (kids (ns ! j))
        \<and> parent (node_steps skMap jIdxs ns idx h (Flat c)) = Some (Flat (idx + j))"
proof (induction ns arbitrary: idx h)
  case Nil
  then show ?case by simp
next
  case (Cons x xs)
  show ?case
  proof (cases "\<exists>n\<in>set xs. c \<in> set (kids n)")
    case True
    obtain j where j: "j < length xs" "c \<in> set (kids (xs ! j))"
      "parent (node_steps skMap jIdxs xs (Suc idx) (node_step skMap jIdxs x idx h) (Flat c))
         = Some (Flat (Suc idx + j))"
      using Cons.IH [OF True] by blast
    show ?thesis
      by (rule exI [of _ "Suc j"]) (use j in simp)
  next
    case False
    then have cx: "c \<in> set (kids x)" using Cons.prems by auto
    have "\<forall>n\<in>set xs. Flat c \<notin> Flat ` set (kids n)" using False by auto
    then have "parent (node_steps skMap jIdxs xs (Suc idx) (node_step skMap jIdxs x idx h) (Flat c))
        = parent (node_step skMap jIdxs x idx h (Flat c))"
      by (rule node_steps_parent_unlisted)
    also have "\<dots> = Some (Flat idx)" using cx by (simp add: node_step_def)
    finally show ?thesis using cx by (intro exI [of _ 0]) simp
  qed
qed

lemma node_steps_fields:
  "nid (node_steps skMap jIdxs ns idx h r) = nid (h r)"
  "path_memo (node_steps skMap jIdxs ns idx h r) = path_memo (h r)"
  by (induction ns arbitrary: idx h) (simp_all add: node_step_def)

section \<open>The tree that is built\<close>

lemma distinct_concat_disjoint:
  "distinct (concat (map f xs)) \<Longrightarrow> i < length xs \<Longrightarrow> j < length xs \<Longrightarrow> i \<noteq> j \<Longrightarrow>
     set (f (xs ! i)) \<inter> set (f (xs ! j)) = {}"
proof (induction xs arbitrary: i j)
  case Nil
  then show ?case by simp
next
  case (Cons x xs)
  have d: "distinct (concat (map f xs))" and dx: "\<forall>y\<in>set xs. set (f x) \<inter> set (f y) = {}"
    using Cons.prems(1) by auto
  show ?case
  proof (cases i)
    case 0
    then obtain j' where j': "j = Suc j'" "j' < length xs" using Cons.prems by (cases j) auto
    then show ?thesis using 0 dx by simp
  next
    case (Suc i')
    show ?thesis
    proof (cases j)
      case 0
      then show ?thesis using Suc dx Cons.prems by auto
    next
      case (Suc j')
      then show ?thesis using \<open>i = Suc i'\<close> Cons.IH [OF d, of i' j'] Cons.prems by simp
    qed
  qed
qed

lemma built_apply:
  "built skMap jIdxs nodes r =
     (node_steps skMap jIdxs nodes 0 new_heap r)\<lparr>
        parent := (if r \<in> Flat ` set (js_sort (orphans_of nodes)) then Some Tree
                   else parent (node_steps skMap jIdxs nodes 0 new_heap r)),
        children := children (node_steps skMap jIdxs nodes 0 new_heap r)
                      @ (if r = Tree then map Flat (js_sort (orphans_of nodes)) else [])\<rparr>"
  by (simp add: built_def fold_setParent_apply)

lemma set_js_sort: "set (js_sort xs) = set xs"
  by (simp add: js_sort_def)

lemma distinct_js_sort: "distinct (js_sort xs) = distinct xs"
  by (simp add: js_sort_def)

lemma built_root: "children (built skMap jIdxs nodes Tree) = map Flat (js_sort (orphans_of nodes))"
  by (simp add: built_apply node_steps_children new_heap_def new_Node_def)

lemma built_children:
  "children (built skMap jIdxs nodes (Flat n)) =
     (if n < length nodes then map Flat (kids (nodes ! n)) else [])"
  by (simp add: built_apply node_steps_children new_heap_def new_Node_def)

lemma orphans_of_iff:
  "x \<in> set (orphans_of nodes) \<longleftrightarrow> x < length nodes \<and> (\<forall>n\<in>set nodes. x \<notin> set (kids n))"
  by (auto simp: orphans_of_def)

lemma built_parent_orphan:
  "x \<in> set (orphans_of nodes) \<Longrightarrow> parent (built skMap jIdxs nodes (Flat x)) = Some Tree"
  by (simp add: built_apply set_js_sort)

lemma built_parent_listed:
  assumes "\<exists>n\<in>set nodes. c \<in> set (kids n)"
  shows "\<exists>j<length nodes. c \<in> set (kids (nodes ! j))
           \<and> parent (built skMap jIdxs nodes (Flat c)) = Some (Flat j)"
proof -
  have "c \<notin> set (orphans_of nodes)" using assms by (auto simp: orphans_of_iff)
  then have "parent (built skMap jIdxs nodes (Flat c))
      = parent (node_steps skMap jIdxs nodes 0 new_heap (Flat c))"
    by (auto simp: built_apply set_js_sort)
  then show ?thesis
    using node_steps_parent_listed [OF assms, of skMap jIdxs 0 new_heap] by simp
qed

lemma built_parent_unique:
  assumes lo: "listed_once nodes" and p: "p < length nodes" and c: "c \<in> set (kids (nodes ! p))"
  shows "parent (built skMap jIdxs nodes (Flat c)) = Some (Flat p)"
proof -
  have "\<exists>n\<in>set nodes. c \<in> set (kids n)" using p c by (meson nth_mem)
  then obtain j where j: "j < length nodes" "c \<in> set (kids (nodes ! j))"
    "parent (built skMap jIdxs nodes (Flat c)) = Some (Flat j)"
    using built_parent_listed by blast
  have "j = p"
  proof (rule ccontr)
    assume "j \<noteq> p"
    then have "set (kids (nodes ! j)) \<inter> set (kids (nodes ! p)) = {}"
      using distinct_concat_disjoint [of kids nodes j p] lo j(1) p
      unfolding listed_once_def by simp
    then show False using j(2) c by blast
  qed
  then show ?thesis using j(3) by simp
qed

text \<open>The store that is built meets what the transform of the root needs.\<close>

lemma built_ready:
  assumes lo: "listed_once nodes"
  defines "cs \<equiv> map Flat (js_sort (orphans_of nodes))"
  shows "children (built skMap jIdxs nodes Tree) = cs"
    and "distinct cs"
    and "Tree \<notin> set cs"
    and "disjoint_children (built skMap jIdxs nodes) cs"
    and "\<forall>c\<in>set cs. \<forall>x\<in>set (children (built skMap jIdxs nodes c)).
           parent (built skMap jIdxs nodes x) = Some c"
proof -
  show "children (built skMap jIdxs nodes Tree) = cs" unfolding cs_def by (rule built_root)
  have "distinct (orphans_of nodes)" by (simp add: orphans_of_def)
  then show "distinct cs"
    unfolding cs_def by (simp add: distinct_map distinct_js_sort inj_on_def)
  show "Tree \<notin> set cs" unfolding cs_def by auto
  have mem: "\<And>c. c \<in> set cs \<Longrightarrow> \<exists>x. c = Flat x \<and> x < length nodes"
    unfolding cs_def by (auto simp: set_js_sort orphans_of_iff)
  show "disjoint_children (built skMap jIdxs nodes) cs"
    unfolding disjoint_children_def
  proof (intro ballI impI)
    fix a b assume a: "a \<in> set cs" and b: "b \<in> set cs" and ab: "a \<noteq> b"
    obtain x where x: "a = Flat x" "x < length nodes" using mem [OF a] by blast
    obtain y where y: "b = Flat y" "y < length nodes" using mem [OF b] by blast
    have "x \<noteq> y" using ab x y by simp
    then have "set (kids (nodes ! x)) \<inter> set (kids (nodes ! y)) = {}"
      using distinct_concat_disjoint [of kids nodes x y] lo x(2) y(2)
      unfolding listed_once_def by simp
    then show "set (children (built skMap jIdxs nodes a)) \<inter> set (children (built skMap jIdxs nodes b)) = {}"
      using x y by (auto simp: built_children)
  qed
  show "\<forall>c\<in>set cs. \<forall>x\<in>set (children (built skMap jIdxs nodes c)).
           parent (built skMap jIdxs nodes x) = Some c"
  proof (intro ballI)
    fix c g assume c: "c \<in> set cs" and g: "g \<in> set (children (built skMap jIdxs nodes c))"
    obtain x where x: "c = Flat x" "x < length nodes" using mem [OF c] by blast
    obtain y where y: "g = Flat y" "y \<in> set (kids (nodes ! x))"
      using g x by (auto simp: built_children)
    show "parent (built skMap jIdxs nodes g) = Some c"
      using built_parent_unique [OF lo x(2) y(2)] x y by simp
  qed
qed

text \<open>
  C1, amended. Let every child index of the input be the index of a node, and no node be
  listed as a child twice (neither by two nodes nor twice by one). Then the tree is built,
  the root holds the orphans \<open>cs\<close>, and \<open>reverse\<close> on the root returns and
  \<^item> leaves the child list of the root as it is: no position changes;
  \<^item> exchanges the child lists pairwise from the outside in: the child at position
    \<open>j\<close> gets the child list of the child at position \<open>length cs - 1 - j\<close>, as the same
    list, so in the same order;
  \<^item> makes every child of the root the parent of the nodes of the list it now holds;
  \<^item> changes no other child list (one level only), no other parent and no other field.
\<close>

theorem reverse_exchanges_child_lists:
  assumes "in_range nodes" and "listed_once nodes"
  shows "\<exists>h h' cs. build_tree skMap jIdxs nodes = Inr h
     \<and> cs = map Flat (js_sort (orphans_of nodes))
     \<and> children (h Tree) = cs
     \<and> reverse Tree h = Some h'
     \<and> children (h' Tree) = cs
     \<and> (\<forall>j<length cs. children (h' (cs ! j)) = children (h (cs ! (length cs - 1 - j))))
     \<and> (\<forall>j<length cs. \<forall>x\<in>set (children (h' (cs ! j))). parent (h' x) = Some (cs ! j))
     \<and> (\<forall>r. r \<notin> set cs \<longrightarrow> children (h' r) = children (h r))
     \<and> (\<forall>x. (\<forall>c\<in>set cs. x \<notin> set (children (h c))) \<longrightarrow> parent (h' x) = parent (h x))
     \<and> (\<forall>r. name (h' r) = name (h r) \<and> path_memo (h' r) = path_memo (h r) \<and> nid (h' r) = nid (h r)
          \<and> meshSkin (h' r) = meshSkin (h r) \<and> skin (h' r) = skin (h r))"
proof -
  define h where "h = built skMap jIdxs nodes"
  define cs where "cs = map Flat (js_sort (orphans_of nodes))"
  have b: "build_tree skMap jIdxs nodes = Inr h"
    unfolding h_def using assms(1) by (rule build_tree_built)
  have r: "children (h Tree) = cs" "distinct cs" "Tree \<notin> set cs" "disjoint_children h cs"
    "\<forall>c\<in>set cs. \<forall>x\<in>set (children (h c)). parent (h x) = Some c"
    unfolding h_def cs_def using built_ready [OF assms(2)] by blast+
  obtain h' where h': "reverse Tree h = Some h'
     \<and> children (h' Tree) = cs
     \<and> (\<forall>j<length cs. children (h' (cs ! j)) = children (h (cs ! (length cs - 1 - j))))
     \<and> (\<forall>j<length cs. \<forall>x\<in>set (children (h' (cs ! j))). parent (h' x) = Some (cs ! j))
     \<and> (\<forall>r. r \<notin> set cs \<longrightarrow> children (h' r) = children (h r))
     \<and> (\<forall>x. (\<forall>c\<in>set cs. x \<notin> set (children (h c))) \<longrightarrow> parent (h' x) = parent (h x))
     \<and> (\<forall>r. name (h' r) = name (h r) \<and> path_memo (h' r) = path_memo (h r) \<and> nid (h' r) = nid (h r)
          \<and> meshSkin (h' r) = meshSkin (h r) \<and> skin (h' r) = skin (h r))"
    using reverse_result [OF r] by (elim exE)
  show ?thesis
    apply (rule exI [of _ h], rule exI [of _ h'], rule exI [of _ cs])
    apply (rule conjI [OF b], rule conjI [OF cs_def], rule conjI [OF r(1)])
    by (rule h')
qed

text \<open>
  On the nine nodes above: the root keeps \<open>[A, B, C, D]\<close>; D holds \<open>[a1, a2]\<close>, in this
  order, and is the parent of both; C holds \<open>[b1]\<close>, B holds \<open>[c1]\<close> and A nothing; a1
  keeps its child x, one level below.
\<close>

theorem reverse_exchanges_child_lists_example:
  "in_range clan \<and> listed_once clan
   \<and> (\<exists>h h'. build_tree Map.empty Map.empty clan = Inr h
        \<and> children (h Tree) = [Flat 0, Flat 1, Flat 2, Flat 3]
        \<and> children (h (Flat 0)) = [Flat 4, Flat 5]
        \<and> reverse Tree h = Some h'
        \<and> children (h' Tree) = [Flat 0, Flat 1, Flat 2, Flat 3]
        \<and> children (h' (Flat 3)) = [Flat 4, Flat 5] \<and> children (h' (Flat 2)) = [Flat 6]
        \<and> children (h' (Flat 1)) = [Flat 7] \<and> children (h' (Flat 0)) = []
        \<and> parent (h' (Flat 4)) = Some (Flat 3) \<and> parent (h' (Flat 5)) = Some (Flat 3)
        \<and> parent (h' (Flat 6)) = Some (Flat 2) \<and> parent (h' (Flat 7)) = Some (Flat 1)
        \<and> children (h' (Flat 4)) = [Flat 8] \<and> parent (h' (Flat 8)) = Some (Flat 4))"
proof -
  let ?cs = "[Flat 0, Flat 1, Flat 2, Flat 3]"
  have ir: "in_range clan" by code_simp
  have lo: "listed_once clan" by code_simp
  have o: "map Flat (js_sort (orphans_of clan)) = ?cs" by code_simp
  obtain h h' cs where all: "build_tree Map.empty Map.empty clan = Inr h
     \<and> cs = map Flat (js_sort (orphans_of clan))
     \<and> children (h Tree) = cs
     \<and> reverse Tree h = Some h'
     \<and> children (h' Tree) = cs
     \<and> (\<forall>j<length cs. children (h' (cs ! j)) = children (h (cs ! (length cs - 1 - j))))
     \<and> (\<forall>j<length cs. \<forall>x\<in>set (children (h' (cs ! j))). parent (h' x) = Some (cs ! j))
     \<and> (\<forall>r. r \<notin> set cs \<longrightarrow> children (h' r) = children (h r))
     \<and> (\<forall>x. (\<forall>c\<in>set cs. x \<notin> set (children (h c))) \<longrightarrow> parent (h' x) = parent (h x))
     \<and> (\<forall>r. name (h' r) = name (h r) \<and> path_memo (h' r) = path_memo (h r) \<and> nid (h' r) = nid (h r)
          \<and> meshSkin (h' r) = meshSkin (h r) \<and> skin (h' r) = skin (h r))"
    using reverse_exchanges_child_lists [OF ir lo, of Map.empty Map.empty] by (elim exE)
  have b: "build_tree Map.empty Map.empty clan = Inr h" by (rule all [THEN conjunct1])
  have cs: "cs = ?cs" using all [THEN conjunct2, THEN conjunct1] o by simp
  have t: "children (h Tree) = ?cs" using all [THEN conjunct2, THEN conjunct2, THEN conjunct1] cs by simp
  have run: "reverse Tree h = Some h'"
    by (rule all [THEN conjunct2, THEN conjunct2, THEN conjunct2, THEN conjunct1])
  have t': "children (h' Tree) = ?cs"
    using all [THEN conjunct2, THEN conjunct2, THEN conjunct2, THEN conjunct2, THEN conjunct1] cs
    by simp
  have ch: "\<forall>j<length ?cs. children (h' (?cs ! j)) = children (h (?cs ! (length ?cs - 1 - j)))"
    using all [THEN conjunct2, THEN conjunct2, THEN conjunct2, THEN conjunct2, THEN conjunct2,
      THEN conjunct1] unfolding cs .
  have pr: "\<forall>j<length ?cs. \<forall>x\<in>set (children (h' (?cs ! j))). parent (h' x) = Some (?cs ! j)"
    using all [THEN conjunct2, THEN conjunct2, THEN conjunct2, THEN conjunct2, THEN conjunct2,
      THEN conjunct2, THEN conjunct1] unfolding cs .
  have oc: "\<forall>r. r \<notin> set ?cs \<longrightarrow> children (h' r) = children (h r)"
    using all [THEN conjunct2, THEN conjunct2, THEN conjunct2, THEN conjunct2, THEN conjunct2,
      THEN conjunct2, THEN conjunct2, THEN conjunct1] unfolding cs .
  have op: "\<forall>x. (\<forall>c\<in>set ?cs. x \<notin> set (children (h c))) \<longrightarrow> parent (h' x) = parent (h x)"
    using all [THEN conjunct2, THEN conjunct2, THEN conjunct2, THEN conjunct2, THEN conjunct2,
      THEN conjunct2, THEN conjunct2, THEN conjunct2, THEN conjunct1] unfolding cs .
  have hh: "h = clan_heap" using b by (simp add: clan_heap_def)
  have c: "children (h (Flat 0)) = [Flat 4, Flat 5]" "children (h (Flat 1)) = [Flat 6]"
    "children (h (Flat 2)) = [Flat 7]" "children (h (Flat 3)) = []"
    "children (h (Flat 4)) = [Flat 8]" "parent (h (Flat 8)) = Some (Flat 4)"
    unfolding hh by code_simp+
  have c1: "children (h (Flat (Suc 0))) = [Flat 6]" using c(2) by simp
  have c3: "children (h' (Flat 3)) = [Flat 4, Flat 5]" using ch [rule_format, of 3] c by simp
  have c2: "children (h' (Flat 2)) = [Flat 6]" using ch [rule_format, of 2] c by simp
  have c1': "children (h' (Flat 1)) = [Flat 7]" using ch [rule_format, of 1] c by simp
  have c0: "children (h' (Flat 0)) = []" using ch [rule_format, of 0] c by simp
  have p4: "parent (h' (Flat 4)) = Some (Flat 3)" using pr [rule_format, of 3 "Flat 4"] c3 by simp
  have p5: "parent (h' (Flat 5)) = Some (Flat 3)" using pr [rule_format, of 3 "Flat 5"] c3 by simp
  have p6: "parent (h' (Flat 6)) = Some (Flat 2)" using pr [rule_format, of 2 "Flat 6"] c2 by simp
  have p7: "parent (h' (Flat 7)) = Some (Flat 1)" using pr [rule_format, of 1 "Flat 7"] c1' by simp
  have c4: "children (h' (Flat 4)) = [Flat 8]" using oc [rule_format, of "Flat 4"] c by simp
  have n8: "\<forall>c\<in>set ?cs. Flat 8 \<notin> set (children (h c))" using c c1 by simp
  have p8: "parent (h' (Flat 8)) = Some (Flat 4)"
    using op [THEN spec, of "Flat 8", THEN mp, OF n8] c(6) by simp
  have "build_tree Map.empty Map.empty clan = Inr h
        \<and> children (h Tree) = [Flat 0, Flat 1, Flat 2, Flat 3]
        \<and> children (h (Flat 0)) = [Flat 4, Flat 5]
        \<and> reverse Tree h = Some h'
        \<and> children (h' Tree) = [Flat 0, Flat 1, Flat 2, Flat 3]
        \<and> children (h' (Flat 3)) = [Flat 4, Flat 5] \<and> children (h' (Flat 2)) = [Flat 6]
        \<and> children (h' (Flat 1)) = [Flat 7] \<and> children (h' (Flat 0)) = []
        \<and> parent (h' (Flat 4)) = Some (Flat 3) \<and> parent (h' (Flat 5)) = Some (Flat 3)
        \<and> parent (h' (Flat 6)) = Some (Flat 2) \<and> parent (h' (Flat 7)) = Some (Flat 1)
        \<and> children (h' (Flat 4)) = [Flat 8] \<and> parent (h' (Flat 8)) = Some (Flat 4)"
    by (intro conjI) (rule b t c(1) run t' c3 c2 c1' c0 p4 p5 p6 p7 c4 p8)+
  then have "\<exists>h h'. build_tree Map.empty Map.empty clan = Inr h
        \<and> children (h Tree) = [Flat 0, Flat 1, Flat 2, Flat 3]
        \<and> children (h (Flat 0)) = [Flat 4, Flat 5]
        \<and> reverse Tree h = Some h'
        \<and> children (h' Tree) = [Flat 0, Flat 1, Flat 2, Flat 3]
        \<and> children (h' (Flat 3)) = [Flat 4, Flat 5] \<and> children (h' (Flat 2)) = [Flat 6]
        \<and> children (h' (Flat 1)) = [Flat 7] \<and> children (h' (Flat 0)) = []
        \<and> parent (h' (Flat 4)) = Some (Flat 3) \<and> parent (h' (Flat 5)) = Some (Flat 3)
        \<and> parent (h' (Flat 6)) = Some (Flat 2) \<and> parent (h' (Flat 7)) = Some (Flat 1)
        \<and> children (h' (Flat 4)) = [Flat 8] \<and> parent (h' (Flat 8)) = Some (Flat 4)"
    by (intro exI)
  then show ?thesis using ir lo by (intro conjI)
qed

text \<open>
  The second condition is needed. When two nodes list the same child (nodes 0 and 1 both
  list node 2), \<open>setParent\<close> puts node 2 in both child lists; after \<open>reverse\<close> node 1
  holds \<open>[2]\<close>, but the parent of node 2 is node 0.
\<close>

lemma reverse_shared_child:
  "\<not> listed_once shared_child
   \<and> (case build_tree Map.empty Map.empty shared_child of
        Inl e \<Rightarrow> None
      | Inr h \<Rightarrow>
         (case reverse Tree h of
            None \<Rightarrow> None
          | Some h' \<Rightarrow> Some (children (h' Tree), children (h' (Flat 1)), parent (h' (Flat 2)))))
     = Some ([Flat 0, Flat 1], [Flat 2], Some (Flat 0))"
  by code_simp

text \<open>
  So is the first: a child index that is no index of a node is a TypeError of
  \<open>nodesFlat[childIdx].setParent\<close>, and no tree is built.
\<close>

lemma build_tree_dangling:
  "\<not> in_range [node None (Some [3])]
   \<and> (case build_tree Map.empty Map.empty [node None (Some [3])] of
        Inl e \<Rightarrow> Some e | Inr h \<Rightarrow> None) = Some TypeError"
  by code_simp

end
